theory Spec2Isabelle
  imports Main "HOL-Library.Sublist" "HOL-Library.Word" "HOL-Library.AList" "HOL-Library.Multiset"
begin

section \<open>Go types as seen through reflection\<close>

text \<open>
  The engine of \<^verbatim>\<open>service\<close> works on \<^verbatim>\<open>reflect.Type\<close> and \<^verbatim>\<open>reflect.Value\<close>.
  A type is a tree: the predeclared types the models of this repository use, pointers,
  slices and struct types. A struct type carries its name (\<^verbatim>\<open>Type.Name()\<close>, empty for
  the unnamed types that \<^verbatim>\<open>reflect.StructOf\<close> builds), the method set of the type, the
  methods that only its pointer type has, and its fields in declaration order. A field
  is a \<^verbatim>\<open>reflect.StructField\<close>: name, type, tag and the embedded flag. A tag is the list
  of its key/value pairs, so that \<^verbatim>\<open>Tag.Lookup\<close> is a lookup in that list. Identifiers
  are ASCII.
\<close>

datatype gotype =
    TBool | TInt | TUint | TString
  | TPtr (Elem: gotype)
  | TSlice (Elem: gotype)
  | TStruct (tname: string) (methods: "string list") (ptr_methods: "string list")
      (tfields: "sfield list")
and sfield =
    StructField (Name: string) (Type: gotype) (Tag: "(string \<times> string) list") (Anonymous: bool)

text \<open>A panic of the reflect package aborts the call: it is the left summand of a result.\<close>

datatype panic =
    NumField_of_non_struct
  | StructOf_unexported_field string
  | StructOf_duplicate_field string
  | FieldByName_of_non_struct
  | Field_index_out_of_range
  | Field_of_non_struct
  | Nil_embedded_pointer
  | Len_of_non_slice
  | Append_not_assignable
  | Uint_of_non_uint

fun TypeName :: "gotype \<Rightarrow> string" where
  "TypeName TBool = ''bool''"
| "TypeName TInt = ''int''"
| "TypeName TUint = ''uint''"
| "TypeName TString = ''string''"
| "TypeName (TPtr _) = ''''"
| "TypeName (TSlice _) = ''''"
| "TypeName (TStruct n _ _ _) = n"

definition IsUpper :: "char \<Rightarrow> bool" where
  "IsUpper c = (65 \<le> (of_char c :: nat) \<and> (of_char c :: nat) \<le> 90)"

definition ToLower :: "char \<Rightarrow> char" where
  "ToLower c = (if IsUpper c then char_of ((of_char c :: nat) + 32) else c)"

definition IsExported :: "string \<Rightarrow> bool" where
  "IsExported n = (case n of [] \<Rightarrow> False | c # _ \<Rightarrow> IsUpper c)"

text \<open>\<^verbatim>\<open>strings.Contains\<close> and \<^verbatim>\<open>strings.HasSuffix\<close>.\<close>

fun Contains :: "string \<Rightarrow> string \<Rightarrow> bool" where
  "Contains [] substr = (substr = [])"
| "Contains (c # s) substr = (prefix substr (c # s) \<or> Contains s substr)"

definition HasSuffix :: "string \<Rightarrow> string \<Rightarrow> bool" where
  "HasSuffix s suf = (length suf \<le> length s \<and> drop (length s - length suf) s = suf)"

text \<open>
  \<^verbatim>\<open>reflect.StructOf\<close> walks the fields in order and panics at the first one that is
  unexported (the generated fields have no package path) or repeats an earlier name.
\<close>

fun StructOf_check :: "string list \<Rightarrow> sfield list \<Rightarrow> panic option" where
  "StructOf_check seen [] = None"
| "StructOf_check seen (f # fs) =
     (if \<not> IsExported (Name f) then Some (StructOf_unexported_field (Name f))
      else if Name f \<in> set seen then Some (StructOf_duplicate_field (Name f))
      else StructOf_check (Name f # seen) fs)"

definition StructOf :: "sfield list \<Rightarrow> panic + gotype" where
  "StructOf fs = (case StructOf_check [] fs of Some p \<Rightarrow> Inl p | None \<Rightarrow> Inr (TStruct '''' [] [] fs))"

section \<open>The struct generator (service engine)\<close>

text \<open>\<^verbatim>\<open>toSnakeCase\<close> of helpers.go: an underscore before every upper-case letter but the first.\<close>

fun toSnakeCase_loop :: "nat \<Rightarrow> string \<Rightarrow> string" where
  "toSnakeCase_loop i [] = []"
| "toSnakeCase_loop i (r # str) =
     (if IsUpper r \<and> i > 0 then [CHR ''_''] else []) @ [ToLower r] @ toSnakeCase_loop (Suc i) str"

definition toSnakeCase :: "string \<Rightarrow> string" where
  "toSnakeCase str = toSnakeCase_loop 0 str"

text \<open>
  The tag every generated create/update field gets: the \<^verbatim>\<open>json\<close> value of the model's tag
  (the field name when there is none), and the \<^verbatim>\<open>validate\<close> value when the model has one.
  The code prints the values between quotes as they are; a value that holds a quote or a
  backslash, which would read back differently, is outside this model of tags.
\<close>

definition paramTag :: "sfield \<Rightarrow> (string \<times> string) list" where
  "paramTag field =
     (let jsonTag = (case map_of (Tag field) ''json'' of Some j \<Rightarrow> j | None \<Rightarrow> Name field) in
      case map_of (Tag field) ''validate'' of
        Some validationTag \<Rightarrow> [(''json'', jsonTag), (''validate'', validationTag)]
      | None \<Rightarrow> [(''json'', jsonTag)])"

definition urlTag :: "sfield \<Rightarrow> (string \<times> string) list" where
  "urlTag field = [(''url'', toSnakeCase (Name field))]"

text \<open>\<^verbatim>\<open>isBaseField\<close>: the loop over \<^verbatim>\<open>baseTypes\<close>.\<close>

definition baseTypes :: "string list" where
  "baseTypes = [''Model'', ''ContentModel'']"

fun isBaseField_loop :: "string list \<Rightarrow> sfield \<Rightarrow> bool" where
  "isBaseField_loop [] field = False"
| "isBaseField_loop (base # bases) field =
     (if Contains (Name field) base \<or> TypeName (Type field) = base then True
      else isBaseField_loop bases field)"

definition isBaseField :: "sfield \<Rightarrow> bool" where
  "isBaseField field = isBaseField_loop baseTypes field"

text \<open>
  \<^verbatim>\<open>extractBaseEmbeddedFields\<close>: \<^verbatim>\<open>addedFields\<close> is the set of the names marked true; the
  function returns the fields it found and the updated set.
\<close>

fun extractBaseEmbeddedFields_loop ::
  "sfield list \<Rightarrow> sfield list \<Rightarrow> string set \<Rightarrow> sfield list \<times> string set" where
  "extractBaseEmbeddedFields_loop [] fields addedFields = (fields, addedFields)"
| "extractBaseEmbeddedFields_loop (field # rest) fields addedFields =
     (if Name field = ''LanguageID'' \<and> Name field \<notin> addedFields
      then extractBaseEmbeddedFields_loop rest
             (fields @ [StructField (Name field) (Type field) (paramTag field) False])
             (insert (Name field) addedFields)
      else extractBaseEmbeddedFields_loop rest fields addedFields)"

definition extractBaseEmbeddedFields ::
  "gotype \<Rightarrow> string set \<Rightarrow> panic + (sfield list \<times> string set)" where
  "extractBaseEmbeddedFields embeddedType addedFields =
     (case embeddedType of
        TStruct _ _ _ fs \<Rightarrow> Inr (extractBaseEmbeddedFields_loop fs [] addedFields)
      | _ \<Rightarrow> Inl NumField_of_non_struct)"

text \<open>\<^verbatim>\<open>generateInnerStruct\<close>: the shape of the elements of a slice-of-struct field.\<close>

fun generateInnerStruct_loop ::
  "bool \<Rightarrow> sfield list \<Rightarrow> sfield list \<Rightarrow> string set \<Rightarrow> panic + (sfield list \<times> string set)" where
  "generateInnerStruct_loop includeForeignKeys [] innerFields addedFields =
     Inr (innerFields, addedFields)"
| "generateInnerStruct_loop includeForeignKeys (field # rest) innerFields addedFields =
     (if Anonymous field \<and> isBaseField field then
        (case extractBaseEmbeddedFields (Type field) addedFields of
           Inl p \<Rightarrow> Inl p
         | Inr (embeddedFields, addedFields') \<Rightarrow>
             generateInnerStruct_loop includeForeignKeys rest
               (innerFields @ embeddedFields) addedFields')
      else if Name field \<in> addedFields then
        generateInnerStruct_loop includeForeignKeys rest innerFields addedFields
      else if includeForeignKeys \<and> HasSuffix (Name field) ''ID'' then
        generateInnerStruct_loop includeForeignKeys rest innerFields addedFields
      else
        generateInnerStruct_loop includeForeignKeys rest
          (innerFields @ [StructField (Name field) (Type field) (paramTag field) False])
          (insert (Name field) addedFields))"

definition generateInnerStruct ::
  "gotype \<Rightarrow> string set \<Rightarrow> bool \<Rightarrow> panic + (gotype \<times> string set)" where
  "generateInnerStruct innerType addedFields includeForeignKeys =
     (case innerType of
        TStruct _ _ _ fs \<Rightarrow>
          (case generateInnerStruct_loop includeForeignKeys fs [] addedFields of
             Inl p \<Rightarrow> Inl p
           | Inr (innerFields, addedFields') \<Rightarrow>
               (case StructOf innerFields of
                  Inl p \<Rightarrow> Inl p
                | Inr t \<Rightarrow> Inr (t, addedFields')))
      | _ \<Rightarrow> Inl NumField_of_non_struct)"

text \<open>
  \<^verbatim>\<open>GenerateCreateParameters\<close>. The model type is the type parameter \<^verbatim>\<open>T\<close> of the engine.
  The source returns a pointer to a zero value of the generated struct type; the model
  returns that struct type.
\<close>

fun GenerateCreateParameters_loop ::
  "sfield list \<Rightarrow> sfield list \<Rightarrow> string set \<Rightarrow> panic + (sfield list \<times> string set)" where
  "GenerateCreateParameters_loop [] fields addedFields = Inr (fields, addedFields)"
| "GenerateCreateParameters_loop (field # rest) fields addedFields =
     (if Anonymous field \<or> isBaseField field then
        (if Anonymous field \<and> isBaseField field then
           (case extractBaseEmbeddedFields (Type field) addedFields of
              Inl p \<Rightarrow> Inl p
            | Inr (embeddedFields, addedFields') \<Rightarrow>
                GenerateCreateParameters_loop rest (fields @ embeddedFields) addedFields')
         else GenerateCreateParameters_loop rest fields addedFields)
      else if is_TSlice (Type field) then
        (if is_TStruct (Elem (Type field)) then
           (case generateInnerStruct (Elem (Type field)) addedFields True of
              Inl p \<Rightarrow> Inl p
            | Inr (innerFields, addedFields') \<Rightarrow>
                GenerateCreateParameters_loop rest
                  (fields @ [StructField (Name field) (TSlice innerFields) (paramTag field) False])
                  addedFields')
         else GenerateCreateParameters_loop rest fields addedFields)
      else
        GenerateCreateParameters_loop rest
          (fields @ [StructField (Name field) (Type field) (paramTag field) False])
          addedFields)"

definition GenerateCreateParameters :: "gotype \<Rightarrow> panic + gotype" where
  "GenerateCreateParameters model =
     (let modelType = (if is_TPtr model then Elem model else model) in
      case modelType of
        TStruct _ _ _ fs \<Rightarrow>
          (case GenerateCreateParameters_loop fs [] {} of
             Inl p \<Rightarrow> Inl p
           | Inr (fields, _) \<Rightarrow> StructOf fields)
      | _ \<Rightarrow> Inl NumField_of_non_struct)"

text \<open>\<^verbatim>\<open>GenerateUpdateParameters\<close>: the same walk, with \<^verbatim>\<open>reflect.PointerTo\<close> at top level.\<close>

fun GenerateUpdateParameters_loop ::
  "sfield list \<Rightarrow> sfield list \<Rightarrow> string set \<Rightarrow> panic + (sfield list \<times> string set)" where
  "GenerateUpdateParameters_loop [] fields addedFields = Inr (fields, addedFields)"
| "GenerateUpdateParameters_loop (field # rest) fields addedFields =
     (if Anonymous field \<or> isBaseField field then
        (if Anonymous field \<and> isBaseField field then
           (case extractBaseEmbeddedFields (Type field) addedFields of
              Inl p \<Rightarrow> Inl p
            | Inr (embeddedFields, addedFields') \<Rightarrow>
                GenerateUpdateParameters_loop rest (fields @ embeddedFields) addedFields')
         else GenerateUpdateParameters_loop rest fields addedFields)
      else if is_TSlice (Type field) then
        (if is_TStruct (Elem (Type field)) then
           (case generateInnerStruct (Elem (Type field)) addedFields True of
              Inl p \<Rightarrow> Inl p
            | Inr (innerFields, addedFields') \<Rightarrow>
                GenerateUpdateParameters_loop rest
                  (fields @ [StructField (Name field) (TPtr (TSlice innerFields))
                               (paramTag field) False])
                  addedFields')
         else GenerateUpdateParameters_loop rest fields addedFields)
      else
        GenerateUpdateParameters_loop rest
          (fields @ [StructField (Name field) (TPtr (Type field)) (paramTag field) False])
          addedFields)"

definition GenerateUpdateParameters :: "gotype \<Rightarrow> panic + gotype" where
  "GenerateUpdateParameters model =
     (let modelType = (if is_TPtr model then Elem model else model) in
      case modelType of
        TStruct _ _ _ fs \<Rightarrow>
          (case GenerateUpdateParameters_loop fs [] {} of
             Inl p \<Rightarrow> Inl p
           | Inr (fields, _) \<Rightarrow> StructOf fields)
      | _ \<Rightarrow> Inl NumField_of_non_struct)"

text \<open>
  \<^verbatim>\<open>orm.IsContentModel\<close> on a zero value of the type: the type's method set has
  \<^verbatim>\<open>GetLanguageID\<close>. A pointer type has the methods of both receivers.
\<close>

fun method_set :: "gotype \<Rightarrow> string list" where
  "method_set (TStruct _ ms _ _) = ms"
| "method_set (TPtr (TStruct _ ms pms _)) = ms @ pms"
| "method_set _ = []"

definition IsContentModel :: "gotype \<Rightarrow> bool" where
  "IsContentModel modelType = (''GetLanguageID'' \<in> set (method_set modelType))"

text \<open>\<^verbatim>\<open>GenerateFilterParameters\<close>: the inner loop that flattens a content element type.\<close>

fun GenerateFilterParameters_inner ::
  "sfield list \<Rightarrow> sfield list \<Rightarrow> string set \<Rightarrow> sfield list \<times> string set" where
  "GenerateFilterParameters_inner [] fields addedFields = (fields, addedFields)"
| "GenerateFilterParameters_inner (innerField # rest) fields addedFields =
     (if HasSuffix (Name innerField) ''ID'' then
        GenerateFilterParameters_inner rest fields addedFields
      else if Anonymous innerField \<or> isBaseField innerField then
        (if Name innerField = ''LanguageID'' \<and> Name innerField \<notin> addedFields then
           GenerateFilterParameters_inner rest
             (fields @ [StructField (Name innerField) (TPtr (Type innerField))
                          (urlTag innerField) False])
             (insert (Name innerField) addedFields)
         else GenerateFilterParameters_inner rest fields addedFields)
      else if Name innerField \<notin> addedFields then
        GenerateFilterParameters_inner rest
          (fields @ [StructField (Name innerField) (TPtr (Type innerField))
                       (urlTag innerField) False])
          (insert (Name innerField) addedFields)
      else GenerateFilterParameters_inner rest fields addedFields)"

fun GenerateFilterParameters_loop ::
  "sfield list \<Rightarrow> sfield list \<Rightarrow> string set \<Rightarrow> sfield list \<times> string set" where
  "GenerateFilterParameters_loop [] fields addedFields = (fields, addedFields)"
| "GenerateFilterParameters_loop (field # rest) fields addedFields =
     (if Anonymous field \<or> isBaseField field then
        GenerateFilterParameters_loop rest fields addedFields
      else if is_TSlice (Type field) \<and> is_TStruct (Elem (Type field))
              \<and> IsContentModel (Elem (Type field)) then
        (case GenerateFilterParameters_inner (tfields (Elem (Type field))) fields addedFields of
           (fields', addedFields') \<Rightarrow> GenerateFilterParameters_loop rest fields' addedFields')
      else if Name field \<notin> addedFields then
        GenerateFilterParameters_loop rest
          (fields @ [StructField (Name field) (TPtr (Type field)) (urlTag field) False])
          (insert (Name field) addedFields)
      else GenerateFilterParameters_loop rest fields addedFields)"

definition GenerateFilterParameters :: "gotype \<Rightarrow> panic + gotype" where
  "GenerateFilterParameters model =
     (let modelType = (if is_TPtr model then Elem model else model) in
      case modelType of
        TStruct _ _ _ fs \<Rightarrow>
          (case GenerateFilterParameters_loop fs [] {} of
             (fields, _) \<Rightarrow> StructOf fields)
      | _ \<Rightarrow> Inl NumField_of_non_struct)"

section \<open>The models of the repository\<close>

text \<open>
  \<^verbatim>\<open>orm.Model\<close>, \<^verbatim>\<open>orm.Language\<close>, \<^verbatim>\<open>orm.ContentModel\<close> of orm/model.go and the
  \<^verbatim>\<open>Blog\<close> and \<^verbatim>\<open>BlogContent\<close> of the example program. \<^verbatim>\<open>time.Time\<close> is a struct of the
  standard library without exported fields; its location pointer is left out.
\<close>

definition Time :: gotype where
  "Time = TStruct ''Time'' [] []
     [StructField ''wall'' TUint [] False, StructField ''ext'' TInt [] False]"

definition Model :: gotype where
  "Model = TStruct ''Model'' [] []
     [StructField ''ID'' TUint [(''json'', ''id''), (''gorm'', ''primaryKey'')] False,
      StructField ''CreatedAt'' Time
        [(''json'', ''created_at''), (''gorm'', ''not null;autoCreateTime'')] False,
      StructField ''UpdatedAt'' Time
        [(''json'', ''updated_at''), (''gorm'', ''not null;autoUpdateTime:milli'')] False]"

definition Language :: gotype where
  "Language = TStruct ''Language'' [] []
     [StructField ''ID'' TString
        [(''json'', ''id''), (''gorm'', ''primaryKey;type:varchar(2);index'')] False,
      StructField ''Title'' TString
        [(''json'', ''title''), (''gorm'', ''not null;type:varchar(50)'')] False,
      StructField ''CreatedAt'' Time
        [(''json'', ''created_at''), (''gorm'', ''not null;autoCreateTime'')] False,
      StructField ''UpdatedAt'' Time
        [(''json'', ''updated_at''), (''gorm'', ''not null;autoUpdateTime:milli'')] False]"

definition ContentModel :: gotype where
  "ContentModel = TStruct ''ContentModel'' [''GetLanguageID'', ''IsContained''] []
     [StructField ''LanguageID'' TString
        [(''json'', ''language_id''), (''gorm'', ''primaryKey;type:varchar(2);index'')] False,
      StructField ''Language'' Language [(''json'', ''-'')] False,
      StructField ''CreatedAt'' Time
        [(''json'', ''created_at''), (''gorm'', ''not null;autoCreateTime'')] False,
      StructField ''UpdatedAt'' Time
        [(''json'', ''updated_at''), (''gorm'', ''not null;autoUpdateTime:milli'')] False]"

definition BlogContent :: gotype where
  "BlogContent = TStruct ''BlogContent'' [''GetLanguageID'', ''IsContained''] []
     [StructField ''ContentModel'' ContentModel [] True,
      StructField ''Content'' TString [(''json'', ''content'')] False,
      StructField ''BlogID'' TUint [(''json'', ''blog_id'')] False]"

definition Blog :: gotype where
  "Blog = TStruct ''Blog'' [] []
     [StructField ''Model'' Model [] True,
      StructField ''Contents'' (TSlice BlogContent)
        [(''json'', ''contents''),
         (''gorm'', ''foreignKey:BlogID;constraint:OnUpdate:CASCADE,OnDelete:CASCADE'')] False,
      StructField ''Owner'' TString [(''json'', ''owner'')] False,
      StructField ''IsPublished'' TBool
        [(''json'', ''is_published''), (''gorm'', ''default:false;index'')] False]"

section \<open>Values\<close>

text \<open>
  A \<^verbatim>\<open>reflect.Value\<close> is a value with its type: a pointer is nil or holds its
  pointee, a slice holds its elements, a struct holds the values of its fields in
  declaration order. \<^verbatim>\<open>int\<close> and \<^verbatim>\<open>uint\<close> are 64 bits wide. The functions below
  assign whole values and never write through two names of one pointer, so a pointer
  is modelled by what it points to.
\<close>

datatype val =
    VBool bool | VInt "64 word" | VUint "64 word" | VString string
  | VPtr gotype "val option"
  | VSlice gotype "val list"
  | VStruct gotype "val list"

fun TypeOf :: "val \<Rightarrow> gotype" where
  "TypeOf (VBool _) = TBool"
| "TypeOf (VInt _) = TInt"
| "TypeOf (VUint _) = TUint"
| "TypeOf (VString _) = TString"
| "TypeOf (VPtr t _) = TPtr t"
| "TypeOf (VSlice t _) = TSlice t"
| "TypeOf (VStruct t _) = t"

fun is_VPtr :: "val \<Rightarrow> bool" where
  "is_VPtr (VPtr _ _) = True"
| "is_VPtr (VBool _) = False"
| "is_VPtr (VInt _) = False"
| "is_VPtr (VUint _) = False"
| "is_VPtr (VString _) = False"
| "is_VPtr (VSlice _ _) = False"
| "is_VPtr (VStruct _ _) = False"

fun is_VSlice :: "val \<Rightarrow> bool" where
  "is_VSlice (VSlice _ _) = True"
| "is_VSlice (VBool _) = False"
| "is_VSlice (VInt _) = False"
| "is_VSlice (VUint _) = False"
| "is_VSlice (VString _) = False"
| "is_VSlice (VPtr _ _) = False"
| "is_VSlice (VStruct _ _) = False"

fun IsNil :: "val \<Rightarrow> bool" where
  "IsNil (VPtr _ None) = True"
| "IsNil (VPtr _ (Some _)) = False"
| "IsNil (VSlice _ _) = False"
| "IsNil (VBool _) = False"
| "IsNil (VInt _) = False"
| "IsNil (VUint _) = False"
| "IsNil (VString _) = False"
| "IsNil (VStruct _ _) = False"

text \<open>\<^verbatim>\<open>reflect.New(t).Elem()\<close>: the zero value of a type.\<close>

fun Zero :: "gotype \<Rightarrow> val"
and Zero_fields :: "sfield list \<Rightarrow> val list" where
  "Zero TBool = VBool False"
| "Zero TInt = VInt 0"
| "Zero TUint = VUint 0"
| "Zero TString = VString []"
| "Zero (TPtr t) = VPtr t None"
| "Zero (TSlice t) = VSlice t []"
| "Zero (TStruct n ms pms fs) = VStruct (TStruct n ms pms fs) (Zero_fields fs)"
| "Zero_fields [] = []"
| "Zero_fields (StructField _ t _ _ # fs) = Zero t # Zero_fields fs"

text \<open>The errors the copier returns, and the wrapping \<^verbatim>\<open>field %s: %w\<close> of its callers.\<close>

datatype error =
    TypeMismatch gotype gotype
  | BothMustBeStructs
  | FieldError string error

text \<open>
  What the functions below take from outside this repository: the assignability and
  convertibility of two types and the conversion of a value (package reflect), the
  \<^verbatim>\<open>GetLanguageID\<close> method of a content type called through reflection (its first result
  as a string; a method that panics is not modelled), \<^verbatim>\<open>Value.String\<close> on a value that
  is not a string, and the order in which a \<^verbatim>\<open>range\<close> visits the entries of a map, which
  Go leaves unspecified.
\<close>

record runtime =
  AssignableTo :: "gotype \<Rightarrow> gotype \<Rightarrow> bool"
  ConvertibleTo :: "gotype \<Rightarrow> gotype \<Rightarrow> bool"
  Convert :: "val \<Rightarrow> gotype \<Rightarrow> val"
  GetLanguageID_method :: "val \<Rightarrow> string"
  Value_String :: "val \<Rightarrow> string"
  map_range :: "(string \<times> val) list \<Rightarrow> (string \<times> val) list"

text \<open>
  \<^verbatim>\<open>Type.FieldByName\<close>: every index path to a field of that name, through embedded
  structs and embedded pointers to structs; the field found is the one of least depth,
  when it is the only one at that depth.
\<close>

fun all_paths :: "string \<Rightarrow> gotype \<Rightarrow> nat list list"
and field_paths :: "string \<Rightarrow> nat \<Rightarrow> sfield list \<Rightarrow> nat list list" where
  "all_paths n (TStruct _ _ _ fs) = field_paths n 0 fs"
| "all_paths n (TPtr t) = (case t of TStruct _ _ _ fs \<Rightarrow> field_paths n 0 fs | _ \<Rightarrow> [])"
| "all_paths n TBool = []"
| "all_paths n TInt = []"
| "all_paths n TUint = []"
| "all_paths n TString = []"
| "all_paths n (TSlice _) = []"
| "field_paths n i [] = []"
| "field_paths n i (StructField nm ty tg an # fs) =
     (if nm = n then [[i]] else [])
     @ (if an then map ((#) i) (all_paths n ty) else [])
     @ field_paths n (Suc i) fs"

definition FieldByName_index :: "gotype \<Rightarrow> string \<Rightarrow> nat list option" where
  "FieldByName_index t name =
     (case all_paths name t of
        [] \<Rightarrow> None
      | p # ps \<Rightarrow>
          (let depth = fold (\<lambda>q d. min (length q) d) ps (length p) in
           case filter (\<lambda>q. length q = depth) (p # ps) of
             [q] \<Rightarrow> Some q
           | _ \<Rightarrow> None))"

text \<open>\<^verbatim>\<open>Value.FieldByIndex\<close>, and the store of a new value at an index path.\<close>

fun FieldByIndex :: "val \<Rightarrow> nat list \<Rightarrow> panic + val" where
  "FieldByIndex v [] = Inr v"
| "FieldByIndex (VStruct t vs) (i # is) =
     (if i < length vs then FieldByIndex (vs ! i) is else Inl Field_index_out_of_range)"
| "FieldByIndex (VPtr t (Some v)) (i # is) = FieldByIndex v (i # is)"
| "FieldByIndex (VPtr t None) (i # is) = Inl Nil_embedded_pointer"
| "FieldByIndex (VBool _) (i # is) = Inl Field_of_non_struct"
| "FieldByIndex (VInt _) (i # is) = Inl Field_of_non_struct"
| "FieldByIndex (VUint _) (i # is) = Inl Field_of_non_struct"
| "FieldByIndex (VString _) (i # is) = Inl Field_of_non_struct"
| "FieldByIndex (VSlice _ _) (i # is) = Inl Field_of_non_struct"

fun store_field :: "val \<Rightarrow> nat list \<Rightarrow> val \<Rightarrow> val" where
  "store_field v [] x = x"
| "store_field (VStruct t vs) (i # is) x = VStruct t (vs[i := store_field (vs ! i) is x])"
| "store_field (VPtr t (Some v)) (i # is) x = VPtr t (Some (store_field v (i # is) x))"
| "store_field (VPtr t None) (i # is) x = VPtr t None"
| "store_field (VBool b) (i # is) x = VBool b"
| "store_field (VInt b) (i # is) x = VInt b"
| "store_field (VUint b) (i # is) x = VUint b"
| "store_field (VString b) (i # is) x = VString b"
| "store_field (VSlice t b) (i # is) x = VSlice t b"

text \<open>
  \<^verbatim>\<open>Value.FieldByName\<close>: the index path and the field, \<open>None\<close> for the invalid value of
  a name that is not found.
\<close>

definition Value_FieldByName :: "val \<Rightarrow> string \<Rightarrow> panic + (nat list \<times> val) option" where
  "Value_FieldByName v name =
     (case v of
        VStruct t vs \<Rightarrow>
          (case FieldByName_index t name of
             None \<Rightarrow> Inr None
           | Some path \<Rightarrow>
               (case FieldByIndex v path of
                  Inl p \<Rightarrow> Inl p
                | Inr field \<Rightarrow> Inr (Some (path, field))))
      | _ \<Rightarrow> Inl FieldByName_of_non_struct)"

text \<open>
  \<^verbatim>\<open>CanSet\<close> of a field found by name in an addressable struct: the field is exported
  (the path to it runs through embedded fields only, which do not make it read-only).
\<close>

definition CanSet :: "string \<Rightarrow> bool" where
  "CanSet name = IsExported name"

section \<open>The copier (service helpers)\<close>

text \<open>\<^verbatim>\<open>copyField\<close>: the loop that dereferences \<^verbatim>\<open>src\<close> while it is a non-nil pointer.\<close>

fun copyField_src :: "val \<Rightarrow> val" where
  "copyField_src (VPtr t (Some v)) = copyField_src v"
| "copyField_src (VPtr t None) = VPtr t None"
| "copyField_src (VBool b) = VBool b"
| "copyField_src (VInt b) = VInt b"
| "copyField_src (VUint b) = VUint b"
| "copyField_src (VString b) = VString b"
| "copyField_src (VSlice t b) = VSlice t b"
| "copyField_src (VStruct t b) = VStruct t b"

text \<open>
  The last step of \<^verbatim>\<open>copyField\<close>: assign, convert, or report the mismatch.
  \<^verbatim>\<open>Value.Set\<close> stores the value with the type of the destination.
\<close>

definition copyField_assign :: "runtime \<Rightarrow> val \<Rightarrow> val \<Rightarrow> val \<times> error option" where
  "copyField_assign rt dst src =
     (if AssignableTo rt (TypeOf src) (TypeOf dst) then
        (if TypeOf src = TypeOf dst then src else Convert rt src (TypeOf dst), None)
      else if ConvertibleTo rt (TypeOf src) (TypeOf dst) then (Convert rt src (TypeOf dst), None)
      else (dst, Some (TypeMismatch (TypeOf src) (TypeOf dst))))"

fun ptr_depth :: "gotype \<Rightarrow> nat" where
  "ptr_depth (TPtr t) = Suc (ptr_depth t)"
| "ptr_depth TBool = 0"
| "ptr_depth TInt = 0"
| "ptr_depth TUint = 0"
| "ptr_depth TString = 0"
| "ptr_depth (TSlice _) = 0"
| "ptr_depth (TStruct _ _ _ _) = 0"

fun dst_depth :: "val \<Rightarrow> nat" where
  "dst_depth (VPtr t None) = Suc (ptr_depth t)"
| "dst_depth (VPtr t (Some v)) = Suc (dst_depth v)"
| "dst_depth (VBool _) = 0"
| "dst_depth (VInt _) = 0"
| "dst_depth (VUint _) = 0"
| "dst_depth (VString _) = 0"
| "dst_depth (VSlice _ _) = 0"
| "dst_depth (VStruct _ _) = 0"

text \<open>
  The loop over \<^verbatim>\<open>dst\<close>: a nil pointer is set to a new zero value, then followed. The
  result is the destination as the call leaves it, and the error.
\<close>

function copyField_dst :: "runtime \<Rightarrow> val \<Rightarrow> val \<Rightarrow> val \<times> error option" where
  "copyField_dst rt dst src =
     (case dst of
        VPtr t None \<Rightarrow>
          (case copyField_dst rt (Zero t) src of (d, err) \<Rightarrow> (VPtr t (Some d), err))
      | VPtr t (Some d0) \<Rightarrow>
          (case copyField_dst rt d0 src of (d, err) \<Rightarrow> (VPtr t (Some d), err))
      | _ \<Rightarrow> copyField_assign rt dst src)"
  by pat_completeness auto
termination
proof (relation "measure (\<lambda>(rt, dst, src). dst_depth dst)")
  fix rt :: runtime and dst src :: val and t :: gotype and x :: "val option"
  assume "dst = VPtr t x" "x = None"
  moreover have "dst_depth (Zero t) = ptr_depth t"
    by (cases t) simp_all
  ultimately show "((rt, Zero t, src), rt, dst, src) \<in> measure (\<lambda>(rt, dst, src). dst_depth dst)"
    by simp
qed auto

declare copyField_dst.simps [simp del]

definition copyField :: "runtime \<Rightarrow> val \<Rightarrow> val \<Rightarrow> val \<times> error option" where
  "copyField rt dst src = copyField_dst rt dst (copyField_src src)"

text \<open>
  \<^verbatim>\<open>copyStruct\<close>: the loop over the fields of \<^verbatim>\<open>src\<close>, each with its value. The
  destination is updated in place, so the result carries it also when an error is
  returned.
\<close>

fun copyStruct_loop ::
  "runtime \<Rightarrow> (sfield \<times> val) list \<Rightarrow> val \<Rightarrow> panic + (val \<times> error option)" where
  "copyStruct_loop rt [] dst = Inr (dst, None)"
| "copyStruct_loop rt ((srcField, srcVal) # rest) dst =
     (case Value_FieldByName dst (Name srcField) of
        Inl p \<Rightarrow> Inl p
      | Inr None \<Rightarrow> copyStruct_loop rt rest dst
      | Inr (Some (path, dstField)) \<Rightarrow>
          (if CanSet (Name srcField) then
             (case copyField rt dstField srcVal of
                (dstField', Some err) \<Rightarrow>
                  Inr (store_field dst path dstField', Some (FieldError (Name srcField) err))
              | (dstField', None) \<Rightarrow>
                  copyStruct_loop rt rest (store_field dst path dstField'))
           else copyStruct_loop rt rest dst))"

definition copyStruct :: "runtime \<Rightarrow> val \<Rightarrow> val \<Rightarrow> panic + (val \<times> error option)" where
  "copyStruct rt dst src =
     (case (dst, src) of
        (VStruct dt dvs, VStruct st svs) \<Rightarrow> copyStruct_loop rt (zip (tfields st) svs) dst
      | _ \<Rightarrow> Inr (dst, Some BothMustBeStructs))"

section \<open>Merging contents by language\<close>

text \<open>
  A Go map from language to content is the list of its entries, one per key:
  \<open>AList.update\<close> overwrites the entry of a key or adds one. \<^verbatim>\<open>range\<close> over the map
  visits the entries in an order of its own, the parameter \<open>order\<close>.

  \<^verbatim>\<open>orm.GetAllContentsWithUpdated\<close>, for any content type and its \<^verbatim>\<open>GetLanguageID\<close>.
\<close>

fun contentMap_insert ::
  "('cm \<Rightarrow> string) \<Rightarrow> 'cm list \<Rightarrow> (string \<times> 'cm) list \<Rightarrow> (string \<times> 'cm) list" where
  "contentMap_insert GetLanguageID [] contentMap = contentMap"
| "contentMap_insert GetLanguageID (content # rest) contentMap =
     contentMap_insert GetLanguageID rest
       (AList.update (GetLanguageID content) content contentMap)"

definition GetAllContentsWithUpdated ::
  "((string \<times> 'cm) list \<Rightarrow> (string \<times> 'cm) list) \<Rightarrow> ('cm \<Rightarrow> string)
     \<Rightarrow> 'cm list \<Rightarrow> 'cm list \<Rightarrow> 'cm list" where
  "GetAllContentsWithUpdated order GetLanguageID currentContents inputContents =
     (let contentMap = contentMap_insert GetLanguageID currentContents [];
          contentMap = contentMap_insert GetLanguageID inputContents contentMap
      in map snd (order contentMap))"

text \<open>
  \<^verbatim>\<open>getLanguageID\<close> of helpers.go: the method of the value, else of its address when
  the value is addressable, else the field \<^verbatim>\<open>LanguageID\<close>.
\<close>

definition getLanguageID :: "runtime \<Rightarrow> bool \<Rightarrow> val \<Rightarrow> panic + string" where
  "getLanguageID rt addressable v =
     (if ''GetLanguageID'' \<in> set (method_set (TypeOf v))
         \<or> (addressable \<and> ''GetLanguageID'' \<in> set (method_set (TPtr (TypeOf v))))
      then Inr (GetLanguageID_method rt v)
      else
        (case Value_FieldByName v ''LanguageID'' of
           Inl p \<Rightarrow> Inl p
         | Inr None \<Rightarrow> Inr ''''
         | Inr (Some (path, field)) \<Rightarrow>
             (if addressable
              then Inr (case field of VString s \<Rightarrow> s | _ \<Rightarrow> Value_String rt field)
              else Inr '''')))"

text \<open>\<^verbatim>\<open>mergeContents\<close>: the elements of a slice are addressable.\<close>

fun mergeContents_loop ::
  "runtime \<Rightarrow> val list \<Rightarrow> (string \<times> val) list \<Rightarrow> panic + (string \<times> val) list" where
  "mergeContents_loop rt [] contentMap = Inr contentMap"
| "mergeContents_loop rt (elem # rest) contentMap =
     (case getLanguageID rt True elem of
        Inl p \<Rightarrow> Inl p
      | Inr langID \<Rightarrow> mergeContents_loop rt rest (AList.update langID elem contentMap))"

text \<open>
  The items a loop \<^verbatim>\<open>for i := 0; i < v.Len(); i++ { getLanguageID(v.Index(i)) ... }\<close>
  visits. \<^verbatim>\<open>Len\<close> panics on a value that is neither a slice nor a string. A string has
  a length, and its items are bytes, on which \<^verbatim>\<open>getLanguageID\<close> panics (a byte has no
  method and is not a struct): an empty string gives no item, any other string the
  panic of the first item.
\<close>

fun index_items :: "val \<Rightarrow> panic + val list" where
  "index_items (VSlice t xs) = Inr xs"
| "index_items (VString []) = Inr []"
| "index_items (VString (c # s)) = Inl FieldByName_of_non_struct"
| "index_items (VBool b) = Inl Len_of_non_slice"
| "index_items (VInt b) = Inl Len_of_non_slice"
| "index_items (VUint b) = Inl Len_of_non_slice"
| "index_items (VPtr t p) = Inl Len_of_non_slice"
| "index_items (VStruct t vs) = Inl Len_of_non_slice"

text \<open>
  \<^verbatim>\<open>mergeContents\<close>. An existing value that is not a slice makes reflect panic (a
  string in \<^verbatim>\<open>getLanguageID\<close> or in \<^verbatim>\<open>MakeSlice\<close>, any other in \<^verbatim>\<open>Len\<close>).
\<close>

definition mergeContents :: "runtime \<Rightarrow> val \<Rightarrow> val \<Rightarrow> panic + val" where
  "mergeContents rt existing newContents =
     (case existing of
        VSlice et es \<Rightarrow>
          (case mergeContents_loop rt es [] of
             Inl p \<Rightarrow> Inl p
           | Inr contentMap \<Rightarrow>
               (case index_items newContents of
                  Inl p \<Rightarrow> Inl p
                | Inr ns \<Rightarrow>
                    (case mergeContents_loop rt ns contentMap of
                       Inl p \<Rightarrow> Inl p
                     | Inr contentMap' \<Rightarrow>
                         (let merged = map snd (map_range rt contentMap') in
                          if list_all (\<lambda>v. AssignableTo rt (TypeOf v) et) merged
                          then Inr (VSlice et merged)
                          else Inl Append_not_assignable))))
      | _ \<Rightarrow> Inl Len_of_non_slice)"

text \<open>
  \<^verbatim>\<open>handleContentUpdate\<close>: the existing items, then the update items, each copied into
  a new zero element of the model's element type and stored only when the copy
  returns no error.
\<close>

fun handleContentUpdate_updates ::
  "runtime \<Rightarrow> gotype \<Rightarrow> val list \<Rightarrow> (string \<times> val) list \<Rightarrow> panic + (string \<times> val) list" where
  "handleContentUpdate_updates rt elemType [] contentMap = Inr contentMap"
| "handleContentUpdate_updates rt elemType (updateItem # rest) contentMap =
     (case getLanguageID rt True updateItem of
        Inl p \<Rightarrow> Inl p
      | Inr langID \<Rightarrow>
          (case copyStruct rt (Zero elemType) updateItem of
             Inl p \<Rightarrow> Inl p
           | Inr (newItem, None) \<Rightarrow>
               handleContentUpdate_updates rt elemType rest (AList.update langID newItem contentMap)
           | Inr (newItem, Some err) \<Rightarrow>
               handleContentUpdate_updates rt elemType rest contentMap))"

definition handleContentUpdate :: "runtime \<Rightarrow> val \<Rightarrow> val \<Rightarrow> panic + (val \<times> error option)" where
  "handleContentUpdate rt modelField paramValue =
     (case modelField of
        VSlice elemType items \<Rightarrow>
          (case mergeContents_loop rt items [] of
             Inl p \<Rightarrow> Inl p
           | Inr contentMap \<Rightarrow>
               (case index_items paramValue of
                  Inl p \<Rightarrow> Inl p
                | Inr updateItems \<Rightarrow>
                    (case handleContentUpdate_updates rt elemType updateItems contentMap of
                       Inl p \<Rightarrow> Inl p
                     | Inr contentMap' \<Rightarrow>
                         Inr (VSlice elemType (map snd (map_range rt contentMap')), None))))
      | _ \<Rightarrow> Inl Len_of_non_slice)"

text \<open>
  \<^verbatim>\<open>UpdateModelFromUpdateParameters\<close>: \<open>modelVal\<close> is the struct the model pointer
  points to; the result is that struct as the call leaves it, and the error.
  \<open>UpdateModelFromUpdateParameters_field\<close> is the body of its loop for one field of the
  parameters.
\<close>

definition ptr_Elem :: "val \<Rightarrow> val" where
  "ptr_Elem v = (case v of VPtr _ (Some s) \<Rightarrow> s | _ \<Rightarrow> v)"

definition wrap_field ::
  "val \<Rightarrow> nat list \<Rightarrow> string \<Rightarrow> val \<times> error option \<Rightarrow> val \<times> error option" where
  "wrap_field modelVal path name r =
     (case r of
        (modelField', Some err) \<Rightarrow> (store_field modelVal path modelField', Some (FieldError name err))
      | (modelField', None) \<Rightarrow> (store_field modelVal path modelField', None))"

definition UpdateModelFromUpdateParameters_field ::
  "runtime \<Rightarrow> sfield \<Rightarrow> val \<Rightarrow> val \<Rightarrow> panic + (val \<times> error option)" where
  "UpdateModelFromUpdateParameters_field rt paramField paramValue modelVal =
     (if is_VPtr paramValue \<and> IsNil paramValue then
        Inr (modelVal, None)
      else
        (case Value_FieldByName modelVal (Name paramField) of
           Inl p \<Rightarrow> Inl p
         | Inr None \<Rightarrow> Inr (modelVal, None)
         | Inr (Some (path, modelField)) \<Rightarrow>
             (if \<not> CanSet (Name paramField) then Inr (modelVal, None)
              else if is_VSlice modelField then
                (if Name paramField = ''Contents'' then
                   (case handleContentUpdate rt modelField
                           (if is_VPtr paramValue then ptr_Elem paramValue else paramValue) of
                      Inl p \<Rightarrow> Inl p
                    | Inr r \<Rightarrow> Inr (wrap_field modelVal path (Name paramField) r))
                 else Inr (modelVal, None))
              else if is_VPtr paramValue then
                Inr (wrap_field modelVal path (Name paramField)
                       (copyField rt modelField (ptr_Elem paramValue)))
              else
                Inr (wrap_field modelVal path (Name paramField)
                       (copyField rt modelField paramValue)))))"



section \<open>The repository\<close>

text \<open>
  The repository talks to the database through GORM. A call of an operation is
  modelled by the calls it makes on the database handle, in order, and the error it
  returns; what each database call answers is given by \<open>db\<close>. Logging is left out.
\<close>

type_synonym db_error = string

datatype db_call =
    tx_Begin | tx_Preload string | tx_Scopes nat | tx_First | tx_Find
  | tx_Create | tx_Save | tx_Delete | tx_Commit | tx_Rollback

record db =
  Begin_error :: "db_error option"
  First_error :: "db_error option"
  Find_error :: "db_error option"
  Create_error :: "db_error option"
  Save_error :: "db_error option"
  Delete_error :: "db_error option"
  Commit_error :: "db_error option"
  Rollback_error :: "db_error option"

fun hasContents_loop :: "sfield list \<Rightarrow> bool" where
  "hasContents_loop [] = False"
| "hasContents_loop (field # rest) =
     (if Name field = ''Contents'' \<and> is_TSlice (Type field)
         \<and> IsContentModel (Elem (Type field))
      then True else hasContents_loop rest)"

definition hasContents :: "gotype \<Rightarrow> panic + bool" where
  "hasContents model =
     (let typ = (if is_TPtr model \<or> is_TSlice model then Elem model else model) in
      case typ of
        TStruct _ _ _ fs \<Rightarrow> Inr (hasContents_loop fs)
      | _ \<Rightarrow> Inl NumField_of_non_struct)"

definition GetByID :: "gotype \<Rightarrow> db \<Rightarrow> panic + (db_call list \<times> db_error option)" where
  "GetByID T db =
     (case Begin_error db of
        Some e \<Rightarrow> Inr ([tx_Begin], Some e)
      | None \<Rightarrow>
          (case hasContents T of
             Inl p \<Rightarrow> Inl p
           | Inr hc \<Rightarrow>
               (let tx = [tx_Begin] @ (if hc then [tx_Preload ''Contents''] else []) in
                case First_error db of
                  Some e \<Rightarrow> Inr (tx @ [tx_First], Some e)
                | None \<Rightarrow> Inr (tx @ [tx_First], None))))"

definition GetAll :: "gotype \<Rightarrow> nat \<Rightarrow> db \<Rightarrow> panic + (db_call list \<times> db_error option)" where
  "GetAll T scopes db =
     (case Begin_error db of
        Some e \<Rightarrow> Inr ([tx_Begin], Some e)
      | None \<Rightarrow>
          (case hasContents (TSlice T) of
             Inl p \<Rightarrow> Inl p
           | Inr hc \<Rightarrow>
               (let tx = [tx_Begin] @ (if hc then [tx_Preload ''Contents''] else []) in
                case Find_error db of
                  Some e \<Rightarrow> Inr (tx @ [tx_Scopes scopes, tx_Find], Some e)
                | None \<Rightarrow> Inr (tx @ [tx_Scopes scopes, tx_Find], None))))"

definition Create :: "db \<Rightarrow> db_call list \<times> db_error option" where
  "Create db =
     (case Begin_error db of
        Some e \<Rightarrow> ([tx_Begin], Some e)
      | None \<Rightarrow>
          (case Create_error db of
             Some e \<Rightarrow>
               (case Rollback_error db of
                  Some rbErr \<Rightarrow> ([tx_Begin, tx_Create, tx_Rollback], Some rbErr)
                | None \<Rightarrow> ([tx_Begin, tx_Create, tx_Rollback], Some e))
           | None \<Rightarrow>
               (case Commit_error db of
                  Some err \<Rightarrow> ([tx_Begin, tx_Create, tx_Commit], Some err)
                | None \<Rightarrow> ([tx_Begin, tx_Create, tx_Commit], None))))"

text \<open>\<^verbatim>\<open>Update\<close> first reads the field \<^verbatim>\<open>ID\<close> of the field \<^verbatim>\<open>Model\<close> for its log lines.\<close>

definition Update_idField :: "val \<Rightarrow> panic + 64 word" where
  "Update_idField v =
     (case Value_FieldByName v ''Model'' of
        Inl p \<Rightarrow> Inl p
      | Inr None \<Rightarrow> Inl FieldByName_of_non_struct
      | Inr (Some (_, m)) \<Rightarrow>
          (case Value_FieldByName m ''ID'' of
             Inl p \<Rightarrow> Inl p
           | Inr (Some (_, VUint n)) \<Rightarrow> Inr n
           | Inr _ \<Rightarrow> Inl Uint_of_non_uint))"

definition Update :: "val \<Rightarrow> db \<Rightarrow> panic + (db_call list \<times> db_error option)" where
  "Update model db =
     (case Update_idField model of
        Inl p \<Rightarrow> Inl p
      | Inr idField \<Rightarrow>
          (case Begin_error db of
             Some e \<Rightarrow> Inr ([tx_Begin], Some e)
           | None \<Rightarrow>
               (case Save_error db of
                  Some e \<Rightarrow>
                    (case Rollback_error db of
                       Some rbErr \<Rightarrow> Inr ([tx_Begin, tx_Save, tx_Rollback], Some rbErr)
                     | None \<Rightarrow> Inr ([tx_Begin, tx_Save, tx_Rollback], Some e))
                | None \<Rightarrow>
                    (case Commit_error db of
                       Some err \<Rightarrow> Inr ([tx_Begin, tx_Save, tx_Commit], Some err)
                     | None \<Rightarrow> Inr ([tx_Begin, tx_Save, tx_Commit], None)))))"

definition Delete :: "db \<Rightarrow> db_call list \<times> db_error option" where
  "Delete db =
     (case Begin_error db of
        Some e \<Rightarrow> ([tx_Begin], Some e)
      | None \<Rightarrow>
          (case First_error db of
             Some err \<Rightarrow>
               (case Rollback_error db of
                  Some rbErr \<Rightarrow> ([tx_Begin, tx_First, tx_Rollback], Some rbErr)
                | None \<Rightarrow> ([tx_Begin, tx_First, tx_Rollback], Some err))
           | None \<Rightarrow>
               (case Delete_error db of
                  Some e \<Rightarrow>
                    (case Rollback_error db of
                       Some rbErr \<Rightarrow> ([tx_Begin, tx_First, tx_Delete, tx_Rollback], Some rbErr)
                     | None \<Rightarrow> ([tx_Begin, tx_First, tx_Delete, tx_Rollback], Some e))
                | None \<Rightarrow>
                    (case Commit_error db of
                       Some err \<Rightarrow> ([tx_Begin, tx_First, tx_Delete, tx_Commit], Some err)
                     | None \<Rightarrow> ([tx_Begin, tx_First, tx_Delete, tx_Commit], None)))))"

section \<open>A runtime and values for the examples\<close>

text \<open>
  \<^verbatim>\<open>GetLanguageID\<close> of orm/model.go returns the field \<^verbatim>\<open>LanguageID\<close> of a
  \<^verbatim>\<open>ContentModel\<close>; a struct that embeds \<^verbatim>\<open>ContentModel\<close> has the method promoted, with
  the embedded value as receiver.
\<close>

definition ContentModel_GetLanguageID :: "val \<Rightarrow> string" where
  "ContentModel_GetLanguageID content =
     (case Value_FieldByName content ''LanguageID'' of
        Inr (Some (_, VString s)) \<Rightarrow> s
      | _ \<Rightarrow> '''')"

definition promoted_GetLanguageID :: "val \<Rightarrow> string" where
  "promoted_GetLanguageID v =
     (if TypeName (TypeOf v) = ''ContentModel'' then ContentModel_GetLanguageID v
      else
        (case Value_FieldByName v ''ContentModel'' of
           Inr (Some (_, content)) \<Rightarrow> ContentModel_GetLanguageID content
         | _ \<Rightarrow> ''''))"

text \<open>
  The runtime of the examples. On the types that occur in them, two types are
  assignable when they are identical and convertible when they are identical or both
  integer types (Go also converts an integer to a string, and between struct types that
  differ in their tags only; no example does). The map is visited in the order of
  first insertion, one of the orders Go may choose.
\<close>

definition go_runtime :: runtime where
  "go_runtime =
     \<lparr>AssignableTo = (\<lambda>v t. v = t),
      ConvertibleTo = (\<lambda>v t. v = t \<or> (v \<in> {TInt, TUint} \<and> t \<in> {TInt, TUint})),
      Convert = (\<lambda>x t. case (x, t) of (VInt n, TUint) \<Rightarrow> VUint n
                                    | (VUint n, TInt) \<Rightarrow> VInt n
                                    | _ \<Rightarrow> x),
      GetLanguageID_method = promoted_GetLanguageID,
      Value_String = (\<lambda>v. ''<'' @ TypeName (TypeOf v) @ '' Value>''),
      map_range = (\<lambda>m. m)\<rparr>"

text \<open>A \<^verbatim>\<open>BlogContent\<close> and a \<^verbatim>\<open>Blog\<close> with given fields, zero elsewhere.\<close>

definition blog_content :: "string \<Rightarrow> string \<Rightarrow> 64 word \<Rightarrow> val" where
  "blog_content languageID content blogID =
     VStruct BlogContent
       [VStruct ContentModel [VString languageID, Zero Language, Zero Time, Zero Time],
        VString content, VUint blogID]"


text \<open>
  The update shape of \<^verbatim>\<open>Blog\<close> and of its contents, as \<open>GenerateUpdateParameters\<close>
  builds them, and update parameters that carry contents only.
\<close>

definition BlogContent_params :: gotype where
  "BlogContent_params = TStruct '''' [] []
     [StructField ''LanguageID'' TString [(''json'', ''language_id'')] False,
      StructField ''Content'' TString [(''json'', ''content'')] False]"

definition Blog_update_params :: gotype where
  "Blog_update_params = TStruct '''' [] []
     [StructField ''Contents'' (TPtr (TSlice BlogContent_params)) [(''json'', ''contents'')] False,
      StructField ''Owner'' (TPtr TString) [(''json'', ''owner'')] False,
      StructField ''IsPublished'' (TPtr TBool) [(''json'', ''is_published'')] False]"



section \<open>Notions the statements use\<close>

text \<open>
  The last element of a list with a given language, the language \<^verbatim>\<open>getLanguageID\<close>
  finds for an element of a slice, and the map \<^verbatim>\<open>GetAllContentsWithUpdated\<close> builds
  before it ranges over it.
\<close>

definition latest :: "('cm \<Rightarrow> string) \<Rightarrow> 'cm list \<Rightarrow> string \<Rightarrow> 'cm option" where
  "latest key xs k = find (\<lambda>y. key y = k) (rev xs)"

definition lang :: "runtime \<Rightarrow> val \<Rightarrow> string" where
  "lang rt v = (case getLanguageID rt True v of Inr s \<Rightarrow> s | Inl p \<Rightarrow> [])"

definition merged_map :: "('cm \<Rightarrow> string) \<Rightarrow> 'cm list \<Rightarrow> 'cm list \<Rightarrow> (string \<times> 'cm) list" where
  "merged_map key cur inc = contentMap_insert key inc (contentMap_insert key cur [])"

text \<open>
  What the result of a merge holds: one element per language of either input; the
  incoming one where the language is incoming, the current one elsewhere.
\<close>

definition one_per_language :: "('cm \<Rightarrow> string) \<Rightarrow> 'cm list \<Rightarrow> 'cm list \<Rightarrow> 'cm list \<Rightarrow> bool" where
  "one_per_language key cur inc res \<longleftrightarrow>
     distinct (map key res)
     \<and> set (map key res) = key ` set cur \<union> key ` set inc
     \<and> (\<forall>x \<in> set res. key x \<in> key ` set inc \<longrightarrow> latest key inc (key x) = Some x)
     \<and> (\<forall>x \<in> set res. key x \<notin> key ` set inc \<longrightarrow> latest key cur (key x) = Some x)"

text \<open>
  The type \<^verbatim>\<open>copyField\<close> compares the source with: the type of the destination after
  the loop that follows (and fills) its pointers. The field of a destination struct a
  source field of a given name is copied into: a direct field, the embedded one when
  the name is that of a promoted field.
\<close>

fun ptr_base :: "gotype \<Rightarrow> gotype" where
  "ptr_base (TPtr t) = ptr_base t"
| "ptr_base TBool = TBool"
| "ptr_base TInt = TInt"
| "ptr_base TUint = TUint"
| "ptr_base TString = TString"
| "ptr_base (TSlice t) = TSlice t"
| "ptr_base (TStruct n ms pms fs) = TStruct n ms pms fs"

fun dst_type :: "val \<Rightarrow> gotype" where
  "dst_type (VPtr t None) = ptr_base t"
| "dst_type (VPtr t (Some v)) = dst_type v"
| "dst_type (VBool b) = TBool"
| "dst_type (VInt b) = TInt"
| "dst_type (VUint b) = TUint"
| "dst_type (VString b) = TString"
| "dst_type (VSlice t b) = TSlice t"
| "dst_type (VStruct t b) = t"

definition target_field :: "gotype \<Rightarrow> string \<Rightarrow> nat option" where
  "target_field dt name = map_option hd (FieldByName_index dt name)"

text \<open>
  Where a field of a generated shape comes from. A field of a nested shape is a field of
  the element type that is not a base embedding and whose name does not end in
  \<^verbatim>\<open>ID\<close>, with its type, or the \<^verbatim>\<open>LanguageID\<close> of a base embedding of the element
  type, with its type. A field of the create shape is a field of the model that is
  neither embedded nor a base field, with its type or, for a slice of structs, with a
  slice of the nested shape; or the \<^verbatim>\<open>LanguageID\<close> of a base embedding of the model,
  with its type. A field of the update shape is a pointer to one of the former, or
  again the \<^verbatim>\<open>LanguageID\<close> of a base embedding of the model, with its type.
\<close>

definition has_LanguageID :: "gotype \<Rightarrow> bool" where
  "has_LanguageID t \<longleftrightarrow> is_TStruct t \<and> (\<exists>b \<in> set (tfields t). Name b = ''LanguageID'')"

definition embeds_LanguageID :: "sfield list \<Rightarrow> bool" where
  "embeds_LanguageID fs \<longleftrightarrow>
     (\<exists>e \<in> set fs. Anonymous e \<and> isBaseField e \<and> has_LanguageID (Type e))"

definition embedded_LanguageID :: "sfield list \<Rightarrow> sfield \<Rightarrow> bool" where
  "embedded_LanguageID fs h \<longleftrightarrow>
     Name h = ''LanguageID''
     \<and> (\<exists>e \<in> set fs. Anonymous e \<and> isBaseField e \<and> is_TStruct (Type e)
           \<and> (\<exists>b \<in> set (tfields (Type e)). Name b = ''LanguageID'' \<and> Type h = Type b))"

definition inner_field_of :: "sfield list \<Rightarrow> sfield \<Rightarrow> bool" where
  "inner_field_of efs h \<longleftrightarrow>
     (\<exists>e \<in> set efs. \<not> (Anonymous e \<and> isBaseField e) \<and> \<not> HasSuffix (Name e) ''ID''
         \<and> Name h = Name e \<and> Type h = Type e)
     \<or> embedded_LanguageID efs h"

definition nested_shape_of :: "gotype \<Rightarrow> gotype \<Rightarrow> bool" where
  "nested_shape_of elemType t \<longleftrightarrow>
     is_TStruct elemType \<and> t = TStruct '''' [] [] (tfields t)
     \<and> (\<forall>h \<in> set (tfields t). inner_field_of (tfields elemType) h)"

definition create_field_of :: "sfield list \<Rightarrow> sfield \<Rightarrow> bool" where
  "create_field_of mfs g \<longleftrightarrow>
     (\<exists>f \<in> set mfs. \<not> Anonymous f \<and> \<not> isBaseField f \<and> Name g = Name f
         \<and> (if is_TSlice (Type f)
            then is_TSlice (Type g) \<and> nested_shape_of (Elem (Type f)) (Elem (Type g))
            else Type g = Type f))
     \<or> embedded_LanguageID mfs g"

definition optional_field_of :: "sfield \<Rightarrow> sfield \<Rightarrow> bool" where
  "optional_field_of f g \<longleftrightarrow>
     Name g = Name f
     \<and> (if is_TSlice (Type f)
        then is_TPtr (Type g) \<and> is_TSlice (Elem (Type g))
             \<and> nested_shape_of (Elem (Type f)) (Elem (Elem (Type g)))
        else Type g = TPtr (Type f))"

definition update_field_of :: "sfield list \<Rightarrow> sfield \<Rightarrow> bool" where
  "update_field_of mfs g \<longleftrightarrow>
     (\<exists>f \<in> set mfs. \<not> Anonymous f \<and> \<not> isBaseField f \<and> optional_field_of f g)
     \<or> embedded_LanguageID mfs g"

text \<open>
  The fields of the model a shape has a field for: those that are neither embedded nor
  base fields, but for the slices whose elements are not structs.
\<close>

definition shape_source :: "sfield \<Rightarrow> bool" where
  "shape_source f \<longleftrightarrow>
     \<not> Anonymous f \<and> \<not> isBaseField f \<and> (is_TSlice (Type f) \<longrightarrow> is_TStruct (Elem (Type f)))"

text \<open>
  How often \<^verbatim>\<open>LanguageID\<close> occurs among fields, and in all the nested shapes of a
  generated shape together. A field of the model supplies a \<^verbatim>\<open>LanguageID\<close> when it is
  a base embedding with that field, or a slice of structs whose element type has such
  an embedding.
\<close>

definition count_LanguageID :: "sfield list \<Rightarrow> nat" where
  "count_LanguageID fs = length (filter (\<lambda>h. Name h = ''LanguageID'') fs)"

definition nested_LanguageID_count :: "sfield list \<Rightarrow> nat" where
  "nested_LanguageID_count gs =
     sum_list (map (\<lambda>g. if Name g \<noteq> ''LanguageID'' \<and> is_TSlice (Type g)
                             \<and> is_TStruct (Elem (Type g))
                          then count_LanguageID (tfields (Elem (Type g))) else 0) gs)"

definition is_content_slice :: "sfield \<Rightarrow> bool" where
  "is_content_slice f \<longleftrightarrow>
     \<not> Anonymous f \<and> \<not> isBaseField f \<and> is_TSlice (Type f) \<and> is_TStruct (Elem (Type f))
     \<and> embeds_LanguageID (tfields (Elem (Type f)))"

definition supplies_LanguageID :: "sfield \<Rightarrow> bool" where
  "supplies_LanguageID f \<longleftrightarrow>
     (Anonymous f \<and> isBaseField f \<and> has_LanguageID (Type f)) \<or> is_content_slice f"

definition model_fields :: "gotype \<Rightarrow> sfield list" where
  "model_fields model = tfields (if is_TPtr model then Elem model else model)"

text \<open>A database on which every call succeeds, and the calls of a repository operation.\<close>

definition db_ok :: db where
  "db_ok = \<lparr>Begin_error = None, First_error = None, Find_error = None, Create_error = None,
            Save_error = None, Delete_error = None, Commit_error = None, Rollback_error = None\<rparr>"

definition calls_of :: "panic + (db_call list \<times> db_error option) \<Rightarrow> db_call list" where
  "calls_of r = (case r of Inl p \<Rightarrow> [] | Inr (calls, err) \<Rightarrow> calls)"

text \<open>
  What one run of the loop of \<^verbatim>\<open>generateInnerStruct\<close> adds to the fields and to
  \<^verbatim>\<open>addedFields\<close>, and what one run of the loop of \<^verbatim>\<open>GenerateCreateParameters\<close> adds.
\<close>

definition inner_run ::
  "sfield list \<Rightarrow> string set \<Rightarrow> sfield list \<Rightarrow> string set \<Rightarrow> bool" where
  "inner_run efs added new added' \<longleftrightarrow>
     (\<forall>h \<in> set new. inner_field_of efs h)
     \<and> added \<subseteq> added'
     \<and> count_LanguageID new =
         (if ''LanguageID'' \<notin> added \<and> embeds_LanguageID efs then 1 else 0)
     \<and> (''LanguageID'' \<in> added' \<longleftrightarrow> ''LanguageID'' \<in> added \<or> embeds_LanguageID efs)"

definition create_run ::
  "sfield list \<Rightarrow> string set \<Rightarrow> sfield list \<Rightarrow> string set \<Rightarrow> bool" where
  "create_run mfs added new added' \<longleftrightarrow>
     (\<forall>g \<in> set new. create_field_of mfs g)
     \<and> added \<subseteq> added'
     \<and> nested_LanguageID_count new \<le> 1
     \<and> (''LanguageID'' \<in> added \<longrightarrow> nested_LanguageID_count new = 0)
     \<and> (nested_LanguageID_count new = 1 \<longrightarrow> ''LanguageID'' \<in> added')"

text \<open>The create shape of \<^verbatim>\<open>Blog\<close>.\<close>

definition Blog_create_params :: gotype where
  "Blog_create_params = TStruct [] [] []
     [StructField ''Contents'' (TSlice BlogContent_params) [(''json'', ''contents'')] False,
      StructField ''Owner'' TString [(''json'', ''owner'')] False,
      StructField ''IsPublished'' TBool [(''json'', ''is_published'')] False]"

text \<open>
  The destination \<^verbatim>\<open>copyField\<close> leaves behind when it reports a mismatch: its loop
  over \<^verbatim>\<open>dst\<close> has by then set every nil pointer on the way to a new zero value.
\<close>

function fill_dst :: "val \<Rightarrow> val" where
  "fill_dst dst =
     (case dst of
        VPtr t None \<Rightarrow> VPtr t (Some (fill_dst (Zero t)))
      | VPtr t (Some d0) \<Rightarrow> VPtr t (Some (fill_dst d0))
      | _ \<Rightarrow> dst)"
  by pat_completeness auto
termination
proof (relation "measure dst_depth")
  fix dst :: val and t :: gotype and x :: "val option"
  assume "dst = VPtr t x" "x = None"
  moreover have "dst_depth (Zero t) = ptr_depth t"
    by (cases t) simp_all
  ultimately show "(Zero t, dst) \<in> measure dst_depth"
    by simp
qed auto

declare fill_dst.simps [simp del]

text \<open>
  The entries of a slice that are the last of their language, and the slices in which
  two entries of one language are always the same entry.
\<close>

definition last_entries :: "('cm \<Rightarrow> string) \<Rightarrow> 'cm list \<Rightarrow> 'cm set" where
  "last_entries key xs = {x \<in> set xs. latest key xs (key x) = Some x}"

definition one_entry_per_key :: "('cm \<Rightarrow> string) \<Rightarrow> 'cm list \<Rightarrow> bool" where
  "one_entry_per_key key xs \<longleftrightarrow> (\<forall>x \<in> set xs. \<forall>y \<in> set xs. key x = key y \<longrightarrow> x = y)"








text \<open>
  A model with two content slices: \<^verbatim>\<open>Shop\<close> with \<^verbatim>\<open>Contents []BlogContent\<close> and
  \<^verbatim>\<open>Summaries []ShopSummary\<close>, and \<^verbatim>\<open>ShopSummary\<close> with \<^verbatim>\<open>orm.ContentModel\<close>,
  \<^verbatim>\<open>Summary string\<close> and \<^verbatim>\<open>ShopID uint\<close>.
\<close>

definition ShopSummary :: gotype where
  "ShopSummary = TStruct ''ShopSummary'' [''GetLanguageID'', ''IsContained''] []
     [StructField ''ContentModel'' ContentModel [] True,
      StructField ''Summary'' TString [(''json'', ''summary'')] False,
      StructField ''ShopID'' TUint [(''json'', ''shop_id'')] False]"

definition Shop :: gotype where
  "Shop = TStruct ''Shop'' [] []
     [StructField ''Model'' Model [] True,
      StructField ''Contents'' (TSlice BlogContent) [(''json'', ''contents'')] False,
      StructField ''Summaries'' (TSlice ShopSummary) [(''json'', ''summaries'')] False]"

text \<open>
  A model that embeds \<^verbatim>\<open>orm.ContentModel\<close> itself and has a content slice: \<^verbatim>\<open>Page\<close>
  with \<^verbatim>\<open>Title string\<close> and \<^verbatim>\<open>Contents []BlogContent\<close>.
\<close>

definition Page :: gotype where
  "Page = TStruct ''Page'' [''GetLanguageID'', ''IsContained''] []
     [StructField ''ContentModel'' ContentModel [] True,
      StructField ''Title'' TString [(''json'', ''title'')] False,
      StructField ''Contents'' (TSlice BlogContent) [(''json'', ''contents'')] False]"

section \<open>Merging: one entry per language\<close>

lemma contentMap_insert_distinct:
  "distinct (map fst m) \<Longrightarrow> distinct (map fst (contentMap_insert key xs m))"
  by (induction xs arbitrary: m) (simp_all add: distinct_update)

lemma find_snoc:
  "find P (ys @ [x]) = (case find P ys of Some y \<Rightarrow> Some y | None \<Rightarrow> if P x then Some x else None)"
  by (induction ys) simp_all

lemma contentMap_insert_lookup:
  "map_of (contentMap_insert key xs m) k =
     (case find (\<lambda>y. key y = k) (rev xs) of Some x \<Rightarrow> Some x | None \<Rightarrow> map_of m k)"
proof (induction xs arbitrary: m)
  case Nil
  then show ?case by simp
next
  case (Cons x xs)
  show ?case
    by (simp add: Cons.IH find_snoc update_conv' split: option.splits)
qed

lemma latest_None: "(latest key xs k = None) = (k \<notin> key ` set xs)"
  by (auto simp: latest_def find_None_iff)

lemma find_Some_holds: "find P xs = Some x \<Longrightarrow> x \<in> set xs \<and> P x"
  by (induction xs) (auto split: if_splits)

lemma latest_Some: "latest key xs k = Some x \<Longrightarrow> x \<in> set xs \<and> key x = k"
  using find_Some_holds[of "\<lambda>y. key y = k" "rev xs" x] by (simp add: latest_def)

lemma merged_map_distinct: "distinct (map fst (merged_map key cur inc))"
  by (simp add: merged_map_def contentMap_insert_distinct)

lemma merged_map_lookup:
  "map_of (merged_map key cur inc) k =
     (case latest key inc k of Some x \<Rightarrow> Some x | None \<Rightarrow> latest key cur k)"
  by (simp add: merged_map_def latest_def contentMap_insert_lookup split: option.splits)

lemma merged_map_entry:
  "(k, x) \<in> set (merged_map key cur inc) \<longleftrightarrow>
     (case latest key inc k of Some y \<Rightarrow> y = x | None \<Rightarrow> latest key cur k = Some x)"
proof -
  have "(k, x) \<in> set (merged_map key cur inc) \<longleftrightarrow> map_of (merged_map key cur inc) k = Some x"
    using merged_map_distinct[of key cur inc] by simp
  then show ?thesis
    by (auto simp: merged_map_lookup split: option.splits)
qed

lemma merged_map_keyed: "(k, x) \<in> set (merged_map key cur inc) \<Longrightarrow> key x = k"
  by (auto simp: merged_map_entry split: option.splits dest: latest_Some)

lemma merged_map_keys: "fst ` set (merged_map key cur inc) = key ` (set cur \<union> set inc)"
proof -
  have "fst ` set (merged_map key cur inc) = dom (map_of (merged_map key cur inc))"
    by (simp add: dom_map_of_conv_image_fst)
  also have "\<dots> = key ` (set cur \<union> set inc)"
  proof (rule set_eqI)
    fix k
    show "k \<in> dom (map_of (merged_map key cur inc)) \<longleftrightarrow> k \<in> key ` (set cur \<union> set inc)"
      using latest_None[of key inc k] latest_None[of key cur k]
      by (cases "latest key inc k"; cases "latest key cur k")
         (auto simp: merged_map_lookup dom_def image_Un)
  qed
  finally show ?thesis .
qed

lemma range_values:
  assumes "mset ys = mset (merged_map key cur inc)"
  shows "distinct (map key (map snd ys))"
    and "set (map key (map snd ys)) = key ` (set cur \<union> set inc)"
    and "x \<in> set (map snd ys) \<longleftrightarrow>
           (case latest key inc (key x) of Some y \<Rightarrow> y = x | None \<Rightarrow> latest key cur (key x) = Some x)"
proof -
  have s: "set ys = set (merged_map key cur inc)"
    using assms by (rule mset_eq_setD)
  have k: "map key (map snd ys) = map fst ys"
    using s merged_map_keyed[of _ _ key cur inc] by (auto simp: map_eq_conv)
  have "mset (map fst ys) = mset (map fst (merged_map key cur inc))"
    using assms by (metis mset_map)
  then have "distinct (map fst ys)"
    using merged_map_distinct[of key cur inc] by (metis mset_eq_imp_distinct_iff)
  then show "distinct (map key (map snd ys))" by (simp only: k)
  show "set (map key (map snd ys)) = key ` (set cur \<union> set inc)"
    using merged_map_keys[of key cur inc] s by (simp only: k set_map)
  have "x \<in> set (map snd ys) \<longleftrightarrow> (key x, x) \<in> set (merged_map key cur inc)"
    using s merged_map_keyed[of _ x key cur inc] by force
  then show "x \<in> set (map snd ys) \<longleftrightarrow>
           (case latest key inc (key x) of Some y \<Rightarrow> y = x | None \<Rightarrow> latest key cur (key x) = Some x)"
    by (simp only: merged_map_entry)
qed

lemma range_one_per_language:
  assumes "mset ys = mset (merged_map key cur inc)"
  shows "one_per_language key cur inc (map snd ys)"
proof -
  have m: "\<And>x. x \<in> set (map snd ys) \<Longrightarrow> key x \<in> key ` set inc \<Longrightarrow> latest key inc (key x) = Some x"
    using range_values(3)[OF assms] latest_None[of key inc]
    by (fastforce split: option.splits)
  have n: "\<And>x. x \<in> set (map snd ys) \<Longrightarrow> key x \<notin> key ` set inc \<Longrightarrow> latest key cur (key x) = Some x"
    using range_values(3)[OF assms] latest_None[of key inc]
    by (fastforce split: option.splits)
  show ?thesis
    unfolding one_per_language_def
    using range_values(1,2)[OF assms] m n by (simp add: image_Un)
qed

lemma mergeContents_loop_insert:
  "mergeContents_loop rt xs m = Inr m' \<Longrightarrow> m' = contentMap_insert (lang rt) xs m"
proof (induction xs arbitrary: m)
  case Nil
  then show ?case by simp
next
  case (Cons x xs)
  then show ?case
    by (auto simp: lang_def split: sum.splits)
qed

lemma mergeContents_loop_returns:
  "\<forall>v \<in> set xs. isl (getLanguageID rt True v) = False \<Longrightarrow>
     mergeContents_loop rt xs m = Inr (contentMap_insert (lang rt) xs m)"
proof (induction xs arbitrary: m)
  case Nil
  then show ?case by simp
next
  case (Cons x xs)
  then show ?case
    by (auto simp: lang_def split: sum.splits)
qed

text \<open>
  Claim C1. Whatever order the final \<^verbatim>\<open>range\<close> takes, the result of
  \<^verbatim>\<open>GetAllContentsWithUpdated\<close> has one element per language of either input and no
  other; an element whose language occurs in the incoming slice is the incoming one (the
  last of that language), and an element whose language occurs in the current slice only
  is the current one. \<^verbatim>\<open>mergeContents\<close> returns such a slice too, of the element type of
  the existing one, whenever it returns; and it returns when \<^verbatim>\<open>getLanguageID\<close> does not
  panic on an element and every element can be appended to the result.
\<close>

theorem merge_one_entry_per_language:
  assumes "\<forall>m. mset (order m) = mset m"
    and "\<forall>m. mset (map_range rt m) = mset m"
  shows "one_per_language key cur inc (GetAllContentsWithUpdated order key cur inc)
    \<and> (\<forall>merged. mergeContents rt (VSlice et es) (VSlice nt ns) = Inr merged \<longrightarrow>
          (\<exists>ms. merged = VSlice et ms \<and> one_per_language (lang rt) es ns ms))
    \<and> ((\<forall>v \<in> set (es @ ns). isl (getLanguageID rt True v) = False
                              \<and> AssignableTo rt (TypeOf v) et) \<longrightarrow>
          isl (mergeContents rt (VSlice et es) (VSlice nt ns)) = False)"
proof (intro conjI allI impI)
  have "mset (order (merged_map key cur inc)) = mset (merged_map key cur inc)"
    using assms(1) by blast
  then show "one_per_language key cur inc (GetAllContentsWithUpdated order key cur inc)"
    unfolding GetAllContentsWithUpdated_def Let_def merged_map_def[symmetric]
    by (rule range_one_per_language)
next
  fix merged
  assume r: "mergeContents rt (VSlice et es) (VSlice nt ns) = Inr merged"
  then obtain m1 m2 where m1: "mergeContents_loop rt es [] = Inr m1"
    and m2: "mergeContents_loop rt ns m1 = Inr m2"
    and res: "merged = VSlice et (map snd (map_range rt m2))"
    by (auto simp: mergeContents_def Let_def split: sum.splits if_splits)
  have "m2 = merged_map (lang rt) es ns"
    using mergeContents_loop_insert[OF m1] mergeContents_loop_insert[OF m2]
    by (simp add: merged_map_def)
  moreover have "mset (map_range rt m2) = mset m2"
    using assms(2) by blast
  ultimately have "one_per_language (lang rt) es ns (map snd (map_range rt m2))"
    by (simp add: range_one_per_language)
  then show "\<exists>ms. merged = VSlice et ms \<and> one_per_language (lang rt) es ns ms"
    using res by blast
next
  assume ok: "\<forall>v \<in> set (es @ ns). isl (getLanguageID rt True v) = False
                              \<and> AssignableTo rt (TypeOf v) et"
  let ?m = "merged_map (lang rt) es ns"
  have m1: "mergeContents_loop rt es [] = Inr (contentMap_insert (lang rt) es [])"
    using ok by (intro mergeContents_loop_returns) simp
  have m2: "mergeContents_loop rt ns (contentMap_insert (lang rt) es []) = Inr ?m"
    unfolding merged_map_def using ok by (intro mergeContents_loop_returns) simp
  have "set (map_range rt ?m) = set ?m"
    using assms(2) by (metis mset_eq_setD)
  moreover have "\<forall>(k, x) \<in> set ?m. x \<in> set (es @ ns)"
    by (auto simp: merged_map_entry split: option.splits dest: latest_Some)
  ultimately have "list_all (\<lambda>v. AssignableTo rt (TypeOf v) et) (map snd (map_range rt ?m))"
    using ok by (fastforce simp: list_all_iff)
  then show "isl (mergeContents rt (VSlice et es) (VSlice nt ns)) = False"
    by (simp add: mergeContents_def m1 m2 Let_def)
qed

theorem merge_one_entry_per_language_witness:
  "(\<forall>m :: (string \<times> string \<times> string) list. mset (id m) = mset m)
   \<and> (\<forall>m. mset (map_range go_runtime m) = mset m)
   \<and> GetAllContentsWithUpdated id fst
        [(''en'', ''hello''), (''ar'', ''marhaba'')] [(''en'', ''new text'')]
      = [(''en'', ''new text''), (''ar'', ''marhaba'')]
   \<and> one_per_language fst [(''en'', ''hello''), (''ar'', ''marhaba'')] [(''en'', ''new text'')]
        (GetAllContentsWithUpdated id fst
           [(''en'', ''hello''), (''ar'', ''marhaba'')] [(''en'', ''new text'')])
   \<and> mergeContents go_runtime
        (VSlice BlogContent [blog_content ''en'' ''hello'' 1, blog_content ''ar'' ''marhaba'' 1])
        (VSlice BlogContent [blog_content ''en'' ''new text'' 1])
      = Inr (VSlice BlogContent
               [blog_content ''en'' ''new text'' 1, blog_content ''ar'' ''marhaba'' 1])"
proof -
  have h1: "\<forall>m :: (string \<times> string \<times> string) list. mset (id m) = mset m"
    by simp
  have h2: "\<forall>m. mset (map_range go_runtime m) = mset m"
    by (simp add: go_runtime_def)
  have e1: "GetAllContentsWithUpdated id fst
        [(''en'', ''hello''), (''ar'', ''marhaba'')] [(''en'', ''new text'')]
      = [(''en'', ''new text''), (''ar'', ''marhaba'')]"
    by (simp add: GetAllContentsWithUpdated_def)
  have l: "getLanguageID go_runtime True (blog_content l c b) = Inr l" for l c b
    by (simp add: getLanguageID_def blog_content_def BlogContent_def ContentModel_def
        go_runtime_def promoted_GetLanguageID_def ContentModel_GetLanguageID_def
        Value_FieldByName_def FieldByName_index_def)
  have e2: "mergeContents go_runtime
        (VSlice BlogContent [blog_content ''en'' ''hello'' 1, blog_content ''ar'' ''marhaba'' 1])
        (VSlice BlogContent [blog_content ''en'' ''new text'' 1])
      = Inr (VSlice BlogContent
               [blog_content ''en'' ''new text'' 1, blog_content ''ar'' ''marhaba'' 1])"
    by (simp add: mergeContents_def l) (simp add: go_runtime_def blog_content_def)
  have t: "one_per_language fst [(''en'', ''hello''), (''ar'', ''marhaba'')] [(''en'', ''new text'')]
        (GetAllContentsWithUpdated id fst
           [(''en'', ''hello''), (''ar'', ''marhaba'')] [(''en'', ''new text'')])"
    using merge_one_entry_per_language[OF h1 h2] by (rule conjunct1)
  from h1 h2 e1 t e2 show ?thesis
    by (intro conjI)
qed

section \<open>Merging with an empty side\<close>

lemma latest_Nil: "latest key [] k = None"
  by (simp add: latest_def)

lemma merge_empty_incoming:
  assumes "mset ys = mset (merged_map key cur [])"
  shows "set (map snd ys) = last_entries key cur"
proof (rule set_eqI)
  fix x
  have "x \<in> set (map snd ys) \<longleftrightarrow> latest key cur (key x) = Some x"
    using range_values(3)[OF assms, of x] by (simp add: latest_Nil)
  then show "x \<in> set (map snd ys) \<longleftrightarrow> x \<in> last_entries key cur"
    using latest_Some[of key cur "key x" x] by (auto simp: last_entries_def)
qed

lemma merge_empty_current:
  assumes "mset ys = mset (merged_map key [] inc)"
  shows "set (map snd ys) = last_entries key inc"
proof (rule set_eqI)
  fix x
  have "x \<in> set (map snd ys) \<longleftrightarrow> latest key inc (key x) = Some x"
    using range_values(3)[OF assms, of x]
    by (cases "latest key inc (key x)") (auto simp: latest_Nil)
  then show "x \<in> set (map snd ys) \<longleftrightarrow> x \<in> last_entries key inc"
    using latest_Some[of key inc "key x" x] by (auto simp: last_entries_def)
qed

lemma last_entries_all:
  "last_entries key xs = set xs \<longleftrightarrow> one_entry_per_key key xs"
proof
  assume a: "last_entries key xs = set xs"
  show "one_entry_per_key key xs"
    unfolding one_entry_per_key_def
  proof (intro ballI impI)
    fix x y
    assume "x \<in> set xs" "y \<in> set xs" and k: "key x = key y"
    then have "x \<in> last_entries key xs" "y \<in> last_entries key xs"
      using a by simp_all
    then have "latest key xs (key x) = Some x" "latest key xs (key y) = Some y"
      by (simp_all add: last_entries_def)
    with k show "x = y" by (metis option.inject)
  qed
next
  assume o: "one_entry_per_key key xs"
  have "latest key xs (key x) = Some x" if "x \<in> set xs" for x
  proof -
    have "latest key xs (key x) \<noteq> None"
      using that latest_None[of key xs "key x"] by blast
    then obtain z where z: "latest key xs (key x) = Some z"
      by blast
    then have "z \<in> set xs" "key z = key x"
      using latest_Some[OF z] by simp_all
    with o that have "z = x"
      by (auto simp: one_entry_per_key_def)
    with z show ?thesis by simp
  qed
  then show "last_entries key xs = set xs"
    by (auto simp: last_entries_def)
qed

text \<open>
  Claim C9, as stated, fails for a slice that holds two different entries of one
  language: here the merge gives back the second entry only.
\<close>

theorem merge_with_empty_side_counterexample:
  "set (GetAllContentsWithUpdated id fst [(''en'', ''a''), (''en'', ''b'')] [])
     \<noteq> set [(''en'', ''a''), (''en'', ''b'')]"
  by (simp add: GetAllContentsWithUpdated_def)

text \<open>
  Claim C9, amended. Whatever order the final \<^verbatim>\<open>range\<close> takes, merging a slice with
  the empty slice, on either side, gives as a set the entries of the slice that are
  the last of their language. So the result is the slice itself, as a set, exactly when
  two entries of one language in it are always the same entry.
\<close>

theorem merge_with_empty_side:
  assumes "\<forall>m. mset (order m) = mset m"
  shows "set (GetAllContentsWithUpdated order key cur []) = last_entries key cur
       \<and> set (GetAllContentsWithUpdated order key [] inc) = last_entries key inc
       \<and> (set (GetAllContentsWithUpdated order key cur []) = set cur
            \<longleftrightarrow> one_entry_per_key key cur)
       \<and> (set (GetAllContentsWithUpdated order key [] inc) = set inc
            \<longleftrightarrow> one_entry_per_key key inc)"
proof -
  have "mset (order (merged_map key cur [])) = mset (merged_map key cur [])"
    using assms by blast
  then have c: "set (GetAllContentsWithUpdated order key cur []) = last_entries key cur"
    unfolding GetAllContentsWithUpdated_def Let_def merged_map_def[symmetric]
    by (rule merge_empty_incoming)
  have "mset (order (merged_map key [] inc)) = mset (merged_map key [] inc)"
    using assms by blast
  then have i: "set (GetAllContentsWithUpdated order key [] inc) = last_entries key inc"
    unfolding GetAllContentsWithUpdated_def Let_def merged_map_def[symmetric]
    by (rule merge_empty_current)
  show ?thesis
    by (simp only: c i last_entries_all)
qed

theorem merge_with_empty_side_witness:
  "(\<forall>m :: (string \<times> string \<times> string) list. mset (rev m) = mset m)
   \<and> set (GetAllContentsWithUpdated rev fst [(''en'', ''a''), (''en'', ''b''), (''ar'', ''c'')] [])
       = {(''en'', ''b''), (''ar'', ''c'')}
   \<and> last_entries fst [(''en'', ''a''), (''en'', ''b''), (''ar'', ''c'')]
       = {(''en'', ''b''), (''ar'', ''c'')}
   \<and> one_entry_per_key fst [(''en'', ''a''), (''ar'', ''c''), (''en'', ''a'')]
   \<and> set (GetAllContentsWithUpdated rev fst [(''en'', ''a''), (''ar'', ''c''), (''en'', ''a'')] [])
       = set [(''en'', ''a''), (''ar'', ''c''), (''en'', ''a'')]
   \<and> set (GetAllContentsWithUpdated rev fst [] [(''en'', ''a''), (''ar'', ''c''), (''en'', ''a'')])
       = set [(''en'', ''a''), (''ar'', ''c''), (''en'', ''a'')]"
proof -
  let ?xs = "[(''en'', ''a''), (''en'', ''b''), (''ar'', ''c'')]"
  let ?ys = "[(''en'', ''a''), (''ar'', ''c''), (''en'', ''a'')]"
  have h: "\<forall>m :: (string \<times> string \<times> string) list. mset (rev m) = mset m"
    by simp
  have l: "last_entries fst ?xs = {(''en'', ''b''), (''ar'', ''c'')}"
    by (auto simp: last_entries_def latest_def)
  have o: "one_entry_per_key fst ?ys"
    by (simp add: one_entry_per_key_def)
  have a: "set (GetAllContentsWithUpdated rev fst ?xs []) = {(''en'', ''b''), (''ar'', ''c'')}"
    using merge_with_empty_side[OF h, of fst ?xs] l by (simp only:)
  have b: "set (GetAllContentsWithUpdated rev fst ?ys []) = set ?ys"
    using merge_with_empty_side[OF h, of fst ?ys] o by blast
  have c: "set (GetAllContentsWithUpdated rev fst [] ?ys) = set ?ys"
    using merge_with_empty_side[OF h, of fst _ ?ys] o by blast
  from h a l o b c show ?thesis
    by (intro conjI)
qed


section \<open>The copier\<close>

lemma dst_type_Zero: "dst_type (Zero t) = ptr_base t"
  by (cases t) simp_all

lemma copyField_assign_error:
  "snd (copyField_assign rt dst src) =
     (if AssignableTo rt (TypeOf src) (TypeOf dst) \<or> ConvertibleTo rt (TypeOf src) (TypeOf dst)
      then None else Some (TypeMismatch (TypeOf src) (TypeOf dst)))"
  by (simp add: copyField_assign_def)

lemma copyField_dst_error:
  "snd (copyField_dst rt dst src) =
     (if AssignableTo rt (TypeOf src) (dst_type dst) \<or> ConvertibleTo rt (TypeOf src) (dst_type dst)
      then None else Some (TypeMismatch (TypeOf src) (dst_type dst)))"
proof (induction rt dst src rule: copyField_dst.induct)
  case (1 rt dst src)
  show ?case
  proof (cases dst)
    case (VPtr t x)
    show ?thesis
    proof (cases x)
      case None
      obtain d e where r: "copyField_dst rt (Zero t) src = (d, e)"
        by (cases "copyField_dst rt (Zero t) src")
      have "snd (copyField_dst rt (Zero t) src) =
          (if AssignableTo rt (TypeOf src) (dst_type (Zero t))
              \<or> ConvertibleTo rt (TypeOf src) (dst_type (Zero t))
           then None else Some (TypeMismatch (TypeOf src) (dst_type (Zero t))))"
        using "1.IH"(1)[of t x] VPtr None by blast
      then have "e = (if AssignableTo rt (TypeOf src) (ptr_base t)
              \<or> ConvertibleTo rt (TypeOf src) (ptr_base t)
           then None else Some (TypeMismatch (TypeOf src) (ptr_base t)))"
        by (simp only: r dst_type_Zero snd_conv)
      then show ?thesis
        unfolding VPtr None by (subst copyField_dst.simps) (simp add: r)
    next
      case (Some d0)
      obtain d e where r: "copyField_dst rt d0 src = (d, e)"
        by (cases "copyField_dst rt d0 src")
      have "snd (copyField_dst rt d0 src) =
          (if AssignableTo rt (TypeOf src) (dst_type d0)
              \<or> ConvertibleTo rt (TypeOf src) (dst_type d0)
           then None else Some (TypeMismatch (TypeOf src) (dst_type d0)))"
        using "1.IH"(2)[of t x d0] VPtr Some by blast
      then have "e = (if AssignableTo rt (TypeOf src) (dst_type d0)
              \<or> ConvertibleTo rt (TypeOf src) (dst_type d0)
           then None else Some (TypeMismatch (TypeOf src) (dst_type d0)))"
        by (simp only: r snd_conv)
      then show ?thesis
        unfolding VPtr Some by (subst copyField_dst.simps) (simp add: r)
    qed
  qed (simp_all add: copyField_dst.simps copyField_assign_error)
qed

lemma copyField_error:
  "snd (copyField rt dst src) =
     (if AssignableTo rt (TypeOf (copyField_src src)) (dst_type dst)
         \<or> ConvertibleTo rt (TypeOf (copyField_src src)) (dst_type dst)
      then None
      else Some (TypeMismatch (TypeOf (copyField_src src)) (dst_type dst)))"
  by (simp add: copyField_def copyField_dst_error)

lemma copyField_dst_mismatch:
  "\<not> AssignableTo rt (TypeOf src) (dst_type dst) \<Longrightarrow>
   \<not> ConvertibleTo rt (TypeOf src) (dst_type dst) \<Longrightarrow>
     copyField_dst rt dst src = (fill_dst dst, Some (TypeMismatch (TypeOf src) (dst_type dst)))"
proof (induction rt dst src rule: copyField_dst.induct)
  case (1 rt dst src)
  show ?case
  proof (cases dst)
    case (VPtr t x)
    show ?thesis
    proof (cases x)
      case None
      have "copyField_dst rt (Zero t) src =
              (fill_dst (Zero t), Some (TypeMismatch (TypeOf src) (dst_type (Zero t))))"
        using "1.IH"(1)[of t x] "1.prems" VPtr None by (simp add: dst_type_Zero)
      then show ?thesis
        unfolding VPtr None
        by (subst copyField_dst.simps, subst fill_dst.simps) (simp add: dst_type_Zero)
    next
      case (Some d0)
      have "copyField_dst rt d0 src =
              (fill_dst d0, Some (TypeMismatch (TypeOf src) (dst_type d0)))"
        using "1.IH"(2)[of t x d0] "1.prems" VPtr Some by simp
      then show ?thesis
        unfolding VPtr Some
        by (subst copyField_dst.simps, subst fill_dst.simps) simp
    qed
  qed (use "1.prems" in \<open>simp_all add: copyField_dst.simps fill_dst.simps copyField_assign_def\<close>)
qed

lemma copyField_mismatch:
  "\<not> AssignableTo rt (TypeOf (copyField_src src)) (dst_type dst) \<Longrightarrow>
   \<not> ConvertibleTo rt (TypeOf (copyField_src src)) (dst_type dst) \<Longrightarrow>
     copyField rt dst src =
       (fill_dst dst, Some (TypeMismatch (TypeOf (copyField_src src)) (dst_type dst)))"
  by (simp add: copyField_def copyField_dst_mismatch)

text \<open>
  Claim C4 is not what \<^verbatim>\<open>copyField\<close> does. A source that is a nil pointer leaves the
  first loop as it is, a pointer; the destination is then followed to its non-pointer
  type, and the copy fails unless the pointer type itself can be assigned or converted
  to that type. Copying the nil \<^verbatim>\<open>*string\<close> field \<^verbatim>\<open>Name\<close> into a \<^verbatim>\<open>string\<close> field
  returns a type mismatch; into a nil \<^verbatim>\<open>*string\<close> field it returns the same error
  and leaves the destination pointing to a new empty string.
\<close>

theorem copyField_nil_source:
  "snd (copyField rt dst (VPtr t None)) =
     (if AssignableTo rt (TPtr t) (dst_type dst) \<or> ConvertibleTo rt (TPtr t) (dst_type dst)
      then None else Some (TypeMismatch (TPtr t) (dst_type dst)))
   \<and> copyStruct go_runtime
        (VStruct (TStruct ''Dst'' [] [] [StructField ''Name'' TString [] False]) [VString ''old''])
        (VStruct (TStruct ''Src'' [] [] [StructField ''Name'' (TPtr TString) [] False])
           [VPtr TString None])
      = Inr (VStruct (TStruct ''Dst'' [] [] [StructField ''Name'' TString [] False])
               [VString ''old''],
             Some (FieldError ''Name'' (TypeMismatch (TPtr TString) TString)))
   \<and> copyStruct go_runtime
        (VStruct (TStruct ''Src'' [] [] [StructField ''Name'' (TPtr TString) [] False])
           [VPtr TString None])
        (VStruct (TStruct ''Src'' [] [] [StructField ''Name'' (TPtr TString) [] False])
           [VPtr TString None])
      = Inr (VStruct (TStruct ''Src'' [] [] [StructField ''Name'' (TPtr TString) [] False])
               [VPtr TString (Some (VString ''''))],
             Some (FieldError ''Name'' (TypeMismatch (TPtr TString) TString)))"
proof (intro conjI)
  show "snd (copyField rt dst (VPtr t None)) =
     (if AssignableTo rt (TPtr t) (dst_type dst) \<or> ConvertibleTo rt (TPtr t) (dst_type dst)
      then None else Some (TypeMismatch (TPtr t) (dst_type dst)))"
    by (simp add: copyField_error)
qed (simp_all add: copyStruct_def Value_FieldByName_def FieldByName_index_def CanSet_def
      IsExported_def IsUpper_def copyField_def copyField_dst.simps copyField_assign_def
      go_runtime_def)

lemma field_paths_nonempty: "p \<in> set (field_paths n i fs) \<Longrightarrow> p \<noteq> []"
proof (induction fs arbitrary: i)
  case Nil
  then show ?case by simp
next
  case (Cons f fs)
  then show ?case
    by (cases f) (auto split: if_splits)
qed

lemma all_paths_nonempty: "p \<in> set (all_paths n t) \<Longrightarrow> p \<noteq> []"
proof (cases t)
  case (TPtr u)
  assume "p \<in> set (all_paths n t)"
  with TPtr show ?thesis
    by (cases u) (auto dest: field_paths_nonempty)
qed (auto dest: field_paths_nonempty)

lemma single_case:
  "(case xs of [] \<Rightarrow> None | [q] \<Rightarrow> Some q | _ # _ # _ \<Rightarrow> None) = Some p \<Longrightarrow> xs = [p]"
  by (auto split: list.splits)

lemma FieldByName_index_path:
  assumes "FieldByName_index t n = Some p"
  shows "p \<in> set (all_paths n t)"
proof (cases "all_paths n t")
  case Nil
  with assms show ?thesis by (simp add: FieldByName_index_def)
next
  case (Cons q qs)
  let ?d = "fold (\<lambda>q d. min (length q) d) qs (length q)"
  have "(case filter (\<lambda>r. length r = ?d) (q # qs) of
           [] \<Rightarrow> None | [q] \<Rightarrow> Some q | _ # _ # _ \<Rightarrow> None) = Some p"
    using assms unfolding FieldByName_index_def Let_def Cons by (simp only: list.case)
  then have "filter (\<lambda>r. length r = ?d) (q # qs) = [p]"
    by (rule single_case)
  then have "p \<in> set (filter (\<lambda>r. length r = ?d) (q # qs))"
    by simp
  then have "p \<in> set (q # qs)"
    by (simp only: set_filter) blast
  then show ?thesis
    by (simp only: Cons)
qed

lemma FieldByName_index_nonempty: "FieldByName_index t n = Some p \<Longrightarrow> p \<noteq> []"
  using FieldByName_index_path all_paths_nonempty by blast

lemma Value_FieldByName_struct:
  assumes "Value_FieldByName (VStruct dt dvs) n = Inr (Some (path, field))"
  shows "FieldByName_index dt n = Some path" and "path \<noteq> []"
proof -
  show "FieldByName_index dt n = Some path"
    using assms by (auto simp: Value_FieldByName_def split: option.splits sum.splits)
  then show "path \<noteq> []"
    by (rule FieldByName_index_nonempty)
qed

lemma store_field_struct:
  assumes "path \<noteq> []"
  shows "\<exists>dvs'. store_field (VStruct dt dvs) path x = VStruct dt dvs'
           \<and> length dvs' = length dvs
           \<and> (\<forall>j < length dvs. j \<noteq> hd path \<longrightarrow> dvs' ! j = dvs ! j)"
  using assms by (cases path) auto

lemma copyStruct_loop_frame:
  "copyStruct_loop rt ps (VStruct dt dvs) = Inr (d', e) \<Longrightarrow>
     \<exists>dvs'. d' = VStruct dt dvs' \<and> length dvs' = length dvs
       \<and> (\<forall>j < length dvs. Some j \<notin> target_field dt ` Name ` fst ` set ps \<longrightarrow> dvs' ! j = dvs ! j)"
proof (induction ps arbitrary: dvs)
  case Nil
  then show ?case by auto
next
  case (Cons a ps)
  obtain srcField srcVal where a: "a = (srcField, srcVal)"
    by (cases a)
  show ?case
  proof (cases "Value_FieldByName (VStruct dt dvs) (Name srcField)")
    case (Inl p)
    with Cons.prems a show ?thesis by simp
  next
    case (Inr found)
    show ?thesis
    proof (cases found)
      case None
      with Cons.prems a Inr have "copyStruct_loop rt ps (VStruct dt dvs) = Inr (d', e)"
        by simp
      from Cons.IH[OF this] show ?thesis by auto
    next
      case (Some pf)
      obtain path dstField where pf: "pf = (path, dstField)"
        by (cases pf)
      have idx: "FieldByName_index dt (Name srcField) = Some path" and ne: "path \<noteq> []"
        using Value_FieldByName_struct[of dt dvs "Name srcField" path dstField] Inr Some pf
        by simp_all
      have tf: "target_field dt (Name srcField) = Some (hd path)"
        by (simp add: target_field_def idx)
      show ?thesis
      proof (cases "CanSet (Name srcField)")
        case False
        with Cons.prems a Inr Some pf have "copyStruct_loop rt ps (VStruct dt dvs) = Inr (d', e)"
          by simp
        from Cons.IH[OF this] show ?thesis by auto
      next
        case True
        obtain dstField' err where c: "copyField rt dstField srcVal = (dstField', err)"
          by (cases "copyField rt dstField srcVal")
        obtain dvs1 where s: "store_field (VStruct dt dvs) path dstField' = VStruct dt dvs1"
          and l: "length dvs1 = length dvs"
          and u: "\<forall>j < length dvs. j \<noteq> hd path \<longrightarrow> dvs1 ! j = dvs ! j"
          using store_field_struct[OF ne, of dt dvs dstField'] by blast
        show ?thesis
        proof (cases err)
          case (Some er)
          with Cons.prems a Inr \<open>found = Some pf\<close> pf True c s
          have "d' = VStruct dt dvs1"
            by simp
          with l u tf a show ?thesis
            by (auto simp: image_iff)
        next
          case None
          with Cons.prems a Inr \<open>found = Some pf\<close> pf True c s
          have "copyStruct_loop rt ps (VStruct dt dvs1) = Inr (d', e)"
            by simp
          from Cons.IH[OF this] obtain dvs' where d: "d' = VStruct dt dvs'"
            and l': "length dvs' = length dvs1"
            and u': "\<forall>j < length dvs1.
                Some j \<notin> target_field dt ` Name ` fst ` set ps \<longrightarrow> dvs' ! j = dvs1 ! j"
            by blast
          have "\<forall>j < length dvs.
                Some j \<notin> target_field dt ` Name ` fst ` set (a # ps) \<longrightarrow> dvs' ! j = dvs ! j"
          proof (intro allI impI)
            fix j
            assume j: "j < length dvs"
              and n: "Some j \<notin> target_field dt ` Name ` fst ` set (a # ps)"
            from n a tf have "j \<noteq> hd path"
              by auto
            moreover from n have "Some j \<notin> target_field dt ` Name ` fst ` set ps"
              by auto
            ultimately show "dvs' ! j = dvs ! j"
              using u u' l j by simp
          qed
          with d l l' show ?thesis by simp
        qed
      qed
    qed
  qed
qed

lemma copyStruct_loop_append:
  "copyStruct_loop rt (pre @ ps) d =
     (case copyStruct_loop rt pre d of
        Inl p \<Rightarrow> Inl p
      | Inr (d1, Some e) \<Rightarrow> Inr (d1, Some e)
      | Inr (d1, None) \<Rightarrow> copyStruct_loop rt ps d1)"
proof (induction pre arbitrary: d)
  case Nil
  then show ?case by simp
next
  case (Cons a pre)
  obtain srcField srcVal where a: "a = (srcField, srcVal)"
    by (cases a)
  show ?case
    unfolding a by (simp add: Cons.IH split: sum.splits option.splits prod.splits)
qed

text \<open>
  Claim C5, as stated, fails: \<^verbatim>\<open>copyStruct\<close> copies field by field into the
  destination itself and stops at the first mismatch, so the fields copied before it
  keep their new values. Here \<^verbatim>\<open>A\<close> is 7 after the failed call and was 1 before it.
\<close>

theorem copyStruct_type_mismatch_counterexample:
  "copyStruct go_runtime
     (VStruct (TStruct ''Dst'' [] []
                 [StructField ''A'' TInt [] False, StructField ''B'' TBool [] False])
        [VInt 1, VBool True])
     (VStruct (TStruct ''Src'' [] []
                 [StructField ''A'' TInt [] False, StructField ''B'' TString [] False])
        [VInt 7, VString ''x''])
   = Inr (VStruct (TStruct ''Dst'' [] []
                     [StructField ''A'' TInt [] False, StructField ''B'' TBool [] False])
            [VInt 7, VBool True],
          Some (FieldError ''B'' (TypeMismatch TString TBool)))"
  by (simp add: copyStruct_def Value_FieldByName_def FieldByName_index_def CanSet_def
      IsExported_def IsUpper_def copyField_def copyField_dst.simps copyField_assign_def
      go_runtime_def)

text \<open>
  Claim C5, amended. When the fields of the source before \<open>f\<close> are copied without
  error, and \<open>f\<close> has a settable field of its name in the destination whose type
  (after the pointers of both sides are followed) its own can neither be assigned nor
  converted to, \<^verbatim>\<open>copyStruct\<close> returns an error that names \<open>f\<close> and both types. The
  destination is then as the copies of the fields before \<open>f\<close> left it, so these keep
  their new values, but for the nil pointers of the field for \<open>f\<close>, which are set to
  new zero values. It is still a struct of its type, and each of its fields that neither
  \<open>f\<close> nor a source field before \<open>f\<close> is copied into has the value it had before the
  call.
\<close>

theorem copyStruct_type_mismatch:
  assumes "zip (tfields st) svs = pre @ (f, v) # rest"
    and "copyStruct_loop rt pre (VStruct dt dvs) = Inr (dst1, None)"
    and "Value_FieldByName dst1 (Name f) = Inr (Some (path, dstField))"
    and "CanSet (Name f)"
    and "\<not> AssignableTo rt (TypeOf (copyField_src v)) (dst_type dstField)"
    and "\<not> ConvertibleTo rt (TypeOf (copyField_src v)) (dst_type dstField)"
  shows "copyStruct rt (VStruct dt dvs) (VStruct st svs) =
           Inr (store_field dst1 path (fill_dst dstField),
                Some (FieldError (Name f)
                        (TypeMismatch (TypeOf (copyField_src v)) (dst_type dstField))))
       \<and> (\<exists>dvs'. store_field dst1 path (fill_dst dstField) = VStruct dt dvs'
             \<and> length dvs' = length dvs
             \<and> (\<forall>j < length dvs.
                   Some j \<notin> target_field dt ` Name ` fst ` set (pre @ [(f, v)]) \<longrightarrow>
                   dvs' ! j = dvs ! j))"
proof -
  let ?err = "FieldError (Name f) (TypeMismatch (TypeOf (copyField_src v)) (dst_type dstField))"
  let ?dst' = "store_field dst1 path (fill_dst dstField)"
  have c: "copyField rt dstField v =
      (fill_dst dstField, Some (TypeMismatch (TypeOf (copyField_src v)) (dst_type dstField)))"
    using assms(5,6) by (rule copyField_mismatch)
  have step: "copyStruct_loop rt ((f, v) # rest) dst1 = Inr (?dst', Some ?err)"
    using assms(3,4) c by simp
  have one: "copyStruct_loop rt [(f, v)] dst1 = Inr (?dst', Some ?err)"
    using assms(3,4) c by simp
  have whole: "copyStruct_loop rt (pre @ (f, v) # rest) (VStruct dt dvs) = Inr (?dst', Some ?err)"
    by (simp only: copyStruct_loop_append assms(2) step sum.case prod.case option.case)
  have upto: "copyStruct_loop rt (pre @ [(f, v)]) (VStruct dt dvs) = Inr (?dst', Some ?err)"
    by (simp only: copyStruct_loop_append assms(2) one sum.case prod.case option.case)
  have "copyStruct rt (VStruct dt dvs) (VStruct st svs) =
          copyStruct_loop rt (pre @ (f, v) # rest) (VStruct dt dvs)"
    by (simp add: copyStruct_def assms(1))
  with whole have "copyStruct rt (VStruct dt dvs) (VStruct st svs) = Inr (?dst', Some ?err)"
    by simp
  with copyStruct_loop_frame[OF upto] show ?thesis
    by blast
qed

theorem copyStruct_type_mismatch_witness:
  "zip (tfields (TStruct ''Src'' [] []
                   [StructField ''A'' TInt [] False, StructField ''B'' TString [] False,
                    StructField ''C'' TInt [] False]))
       [VInt 7, VString ''x'', VInt 9]
     = [(StructField ''A'' TInt [] False, VInt 7)]
       @ (StructField ''B'' TString [] False, VString ''x'')
       # [(StructField ''C'' TInt [] False, VInt 9)]
   \<and> copyStruct_loop go_runtime [(StructField ''A'' TInt [] False, VInt 7)]
        (VStruct (TStruct ''Dst'' [] []
                    [StructField ''A'' TInt [] False, StructField ''B'' TBool [] False,
                     StructField ''C'' TInt [] False])
           [VInt 1, VBool True, VInt 3])
      = Inr (VStruct (TStruct ''Dst'' [] []
                    [StructField ''A'' TInt [] False, StructField ''B'' TBool [] False,
                     StructField ''C'' TInt [] False])
           [VInt 7, VBool True, VInt 3], None)
   \<and> CanSet ''B''
   \<and> \<not> AssignableTo go_runtime TString TBool
   \<and> \<not> ConvertibleTo go_runtime TString TBool
   \<and> copyStruct go_runtime
         (VStruct (TStruct ''Dst'' [] []
                     [StructField ''A'' TInt [] False, StructField ''B'' TBool [] False,
                      StructField ''C'' TInt [] False])
            [VInt 1, VBool True, VInt 3])
         (VStruct (TStruct ''Src'' [] []
                     [StructField ''A'' TInt [] False, StructField ''B'' TString [] False,
                      StructField ''C'' TInt [] False])
            [VInt 7, VString ''x'', VInt 9])
       = Inr (VStruct (TStruct ''Dst'' [] []
                     [StructField ''A'' TInt [] False, StructField ''B'' TBool [] False,
                      StructField ''C'' TInt [] False])
                [VInt 7, VBool True, VInt 3],
              Some (FieldError ''B'' (TypeMismatch TString TBool)))"
proof -
  let ?D = "TStruct ''Dst'' [] []
              [StructField ''A'' TInt [] False, StructField ''B'' TBool [] False,
               StructField ''C'' TInt [] False]"
  let ?S = "TStruct ''Src'' [] []
              [StructField ''A'' TInt [] False, StructField ''B'' TString [] False,
               StructField ''C'' TInt [] False]"
  let ?pre = "[(StructField ''A'' TInt [] False, VInt 7)]"
  let ?f = "StructField ''B'' TString [] False"
  let ?rest = "[(StructField ''C'' TInt [] False, VInt 9)]"
  have h1: "zip (tfields ?S) [VInt 7, VString ''x'', VInt 9] = ?pre @ (?f, VString ''x'') # ?rest"
    by simp
  have h2: "copyStruct_loop go_runtime ?pre (VStruct ?D [VInt 1, VBool True, VInt 3])
              = Inr (VStruct ?D [VInt 7, VBool True, VInt 3], None)"
    by (simp add: Value_FieldByName_def FieldByName_index_def CanSet_def
      IsExported_def IsUpper_def copyField_def copyField_dst.simps copyField_assign_def
      go_runtime_def)
  have h3: "Value_FieldByName (VStruct ?D [VInt 7, VBool True, VInt 3]) (Name ?f)
              = Inr (Some ([1], VBool True))"
    by (simp add: Value_FieldByName_def FieldByName_index_def)
  have h4: "CanSet (Name ?f)"
    by (simp add: CanSet_def IsExported_def IsUpper_def)
  have h5: "\<not> AssignableTo go_runtime (TypeOf (copyField_src (VString ''x''))) (dst_type (VBool True))"
    by (simp add: go_runtime_def)
  have h6: "\<not> ConvertibleTo go_runtime (TypeOf (copyField_src (VString ''x''))) (dst_type (VBool True))"
    by (simp add: go_runtime_def)
  have s: "store_field (VStruct ?D [VInt 7, VBool True, VInt 3]) [1] (fill_dst (VBool True))
             = VStruct ?D [VInt 7, VBool True, VInt 3]"
    by (simp add: fill_dst.simps)
  have r: "copyStruct go_runtime (VStruct ?D [VInt 1, VBool True, VInt 3])
        (VStruct ?S [VInt 7, VString ''x'', VInt 9])
       = Inr (VStruct ?D [VInt 7, VBool True, VInt 3],
              Some (FieldError ''B'' (TypeMismatch TString TBool)))"
    using copyStruct_type_mismatch[OF h1 h2 h3 h4 h5 h6] unfolding s by simp
  have c: "CanSet ''B''" using h4 by simp
  have a: "\<not> AssignableTo go_runtime TString TBool" "\<not> ConvertibleTo go_runtime TString TBool"
    using h5 h6 by simp_all
  from h1 h2 c a r show ?thesis
    by (intro conjI)
qed


section \<open>Updating the contents of a model\<close>

lemma handleContentUpdate_updates_append:
  "handleContentUpdate_updates rt elemType (xs @ ys) m =
     (case handleContentUpdate_updates rt elemType xs m of
        Inl p \<Rightarrow> Inl p
      | Inr m' \<Rightarrow> handleContentUpdate_updates rt elemType ys m')"
proof (induction xs arbitrary: m)
  case Nil
  then show ?case by simp
next
  case (Cons x xs)
  show ?case
    by (simp add: Cons.IH split: sum.splits prod.splits option.splits)
qed

lemma handleContentUpdate_no_error:
  "handleContentUpdate rt modelField paramValue = Inr (r, e) \<Longrightarrow> e = None"
  by (auto simp: handleContentUpdate_def split: val.splits sum.splits)

lemma wrap_field_None: "wrap_field modelVal path name (x, None) = (store_field modelVal path x, None)"
  by (simp add: wrap_field_def)

text \<open>
  Claim C10. An update item whose copy into a new element returns an error leaves no
  trace: the update of the contents gives what it gives without that item, so the entry
  of its language, if there is one, stays. \<^verbatim>\<open>handleContentUpdate\<close> never returns an error,
  and neither does the step of \<^verbatim>\<open>UpdateModelFromUpdateParameters\<close> for the field
  \<^verbatim>\<open>Contents\<close> of a model whose \<^verbatim>\<open>Contents\<close> is a slice.
\<close>

theorem content_copy_error_is_dropped:
  assumes "getLanguageID rt True updateItem = Inr langID"
    and "copyStruct rt (Zero elemType) updateItem = Inr (newItem, Some err)"
  shows "handleContentUpdate rt (VSlice elemType items) (VSlice pt (before @ updateItem # after))
           = handleContentUpdate rt (VSlice elemType items) (VSlice pt (before @ after))
    \<and> (\<forall>r e. handleContentUpdate rt modelField paramValue = Inr (r, e) \<longrightarrow> e = None)
    \<and> (Name paramField = ''Contents''
         \<and> Value_FieldByName modelVal ''Contents'' = Inr (Some (path, VSlice elemType items))
        \<longrightarrow> (\<forall>r e. UpdateModelFromUpdateParameters_field rt paramField paramValue modelVal
                       = Inr (r, e) \<longrightarrow> e = None))"
proof (intro conjI allI impI)
  have one: "handleContentUpdate_updates rt elemType (updateItem # after) m
               = handleContentUpdate_updates rt elemType after m" for m
    using assms by simp
  have skip: "handleContentUpdate_updates rt elemType (before @ updateItem # after) m
               = handleContentUpdate_updates rt elemType (before @ after) m" for m
    by (simp only: handleContentUpdate_updates_append one)
  show "handleContentUpdate rt (VSlice elemType items) (VSlice pt (before @ updateItem # after))
           = handleContentUpdate rt (VSlice elemType items) (VSlice pt (before @ after))"
    by (simp add: handleContentUpdate_def skip split: sum.splits)
next
  fix r e
  assume "handleContentUpdate rt modelField paramValue = Inr (r, e)"
  then show "e = None"
    by (rule handleContentUpdate_no_error)
next
  fix r e
  assume c: "Name paramField = ''Contents''
         \<and> Value_FieldByName modelVal ''Contents'' = Inr (Some (path, VSlice elemType items))"
    and s: "UpdateModelFromUpdateParameters_field rt paramField paramValue modelVal = Inr (r, e)"
  show "e = None"
  proof (cases "is_VPtr paramValue \<and> IsNil paramValue")
    case True
    with s show ?thesis
      by (simp add: UpdateModelFromUpdateParameters_field_def)
  next
    case False
    let ?sv = "if is_VPtr paramValue then ptr_Elem paramValue else paramValue"
    show ?thesis
    proof (cases "handleContentUpdate rt (VSlice elemType items) ?sv")
      case (Inl p)
      with s c False show ?thesis
        by (simp add: UpdateModelFromUpdateParameters_field_def split: if_splits)
    next
      case (Inr res)
      obtain x e' where res: "res = (x, e')"
        by (cases res)
      have "e' = None"
        using Inr res handleContentUpdate_no_error by blast
      with s c False Inr res show ?thesis
        by (auto simp: UpdateModelFromUpdateParameters_field_def wrap_field_None
            split: if_splits)
    qed
  qed
qed

theorem content_copy_error_is_dropped_witness:
  "getLanguageID go_runtime True
     (VStruct (TStruct '''' [] []
                 [StructField ''LanguageID'' TString [] False,
                  StructField ''Content'' TBool [] False])
        [VString ''en'', VBool True]) = Inr ''en''
   \<and> copyStruct go_runtime (Zero BlogContent)
     (VStruct (TStruct '''' [] []
                 [StructField ''LanguageID'' TString [] False,
                  StructField ''Content'' TBool [] False])
        [VString ''en'', VBool True])
      = Inr (blog_content ''en'' '''' 0, Some (FieldError ''Content'' (TypeMismatch TBool TString)))
   \<and> handleContentUpdate go_runtime
        (VSlice BlogContent [blog_content ''en'' ''hello'' 1, blog_content ''ar'' ''marhaba'' 1])
        (VSlice (TStruct '''' [] []
                   [StructField ''LanguageID'' TString [] False,
                    StructField ''Content'' TBool [] False])
           ([] @ VStruct (TStruct '''' [] []
                      [StructField ''LanguageID'' TString [] False,
                       StructField ''Content'' TBool [] False])
                   [VString ''en'', VBool True] # []))
      = Inr (VSlice BlogContent
               [blog_content ''en'' ''hello'' 1, blog_content ''ar'' ''marhaba'' 1], None)"
proof -
  let ?T = "TStruct '''' [] []
                 [StructField ''LanguageID'' TString [] False,
                  StructField ''Content'' TBool [] False]"
  let ?u = "VStruct ?T [VString ''en'', VBool True]"
  have h1: "getLanguageID go_runtime True ?u = Inr ''en''"
    by (simp add: getLanguageID_def Value_FieldByName_def FieldByName_index_def)
  have h2: "copyStruct go_runtime (Zero BlogContent) ?u
      = Inr (blog_content ''en'' '''' 0, Some (FieldError ''Content'' (TypeMismatch TBool TString)))"
    by (simp add: copyStruct_def BlogContent_def ContentModel_def Language_def Time_def
        blog_content_def Value_FieldByName_def FieldByName_index_def CanSet_def
        IsExported_def IsUpper_def copyField_def copyField_dst.simps copyField_assign_def
        go_runtime_def)
  have l: "getLanguageID go_runtime True (blog_content l c b) = Inr l" for l c b
    by (simp add: getLanguageID_def blog_content_def BlogContent_def ContentModel_def
        go_runtime_def promoted_GetLanguageID_def ContentModel_GetLanguageID_def
        Value_FieldByName_def FieldByName_index_def)
  have h3: "handleContentUpdate go_runtime
        (VSlice BlogContent [blog_content ''en'' ''hello'' 1, blog_content ''ar'' ''marhaba'' 1])
        (VSlice ?T ([] @ []))
      = Inr (VSlice BlogContent
               [blog_content ''en'' ''hello'' 1, blog_content ''ar'' ''marhaba'' 1], None)"
    by (simp add: handleContentUpdate_def l) (simp add: go_runtime_def)
  have "handleContentUpdate go_runtime
        (VSlice BlogContent [blog_content ''en'' ''hello'' 1, blog_content ''ar'' ''marhaba'' 1])
        (VSlice ?T ([] @ ?u # []))
      = handleContentUpdate go_runtime
        (VSlice BlogContent [blog_content ''en'' ''hello'' 1, blog_content ''ar'' ''marhaba'' 1])
        (VSlice ?T ([] @ []))"
    using content_copy_error_is_dropped[OF h1 h2] by (rule conjunct1)
  with h1 h2 h3 show ?thesis
    by (simp only:) 
qed







section \<open>The generated shapes\<close>

lemma HasSuffix_LanguageID: "HasSuffix ''LanguageID'' ''ID''"
  by (simp add: HasSuffix_def)

lemma extract_loop_added:
  "''LanguageID'' \<in> added \<Longrightarrow> extractBaseEmbeddedFields_loop fs acc added = (acc, added)"
  by (induction fs) auto

lemma extract_loop_find:
  "''LanguageID'' \<notin> added \<Longrightarrow>
     extractBaseEmbeddedFields_loop fs acc added =
       (case find (\<lambda>b. Name b = ''LanguageID'') fs of
          None \<Rightarrow> (acc, added)
        | Some b \<Rightarrow> (acc @ [StructField ''LanguageID'' (Type b) (paramTag b) False],
                     insert ''LanguageID'' added))"
proof (induction fs)
  case Nil
  then show ?case by simp
next
  case (Cons f fs)
  then show ?case
    by (auto simp: extract_loop_added)
qed

lemma find_None_has: "find (\<lambda>b. Name b = ''LanguageID'') fs = None \<longleftrightarrow>
    \<not> (\<exists>b \<in> set fs. Name b = ''LanguageID'')"
  by (auto simp: find_None_iff)

lemma extract_summary:
  assumes "extractBaseEmbeddedFields t added = Inr (new, added')"
  shows "is_TStruct t"
    and "\<forall>h \<in> set new. Name h = ''LanguageID''
           \<and> (\<exists>b \<in> set (tfields t). Name b = ''LanguageID'' \<and> Type h = Type b)"
    and "count_LanguageID new = (if ''LanguageID'' \<in> added \<or> \<not> has_LanguageID t then 0 else 1)"
    and "added' = (if ''LanguageID'' \<in> added \<or> \<not> has_LanguageID t then added
                   else insert ''LanguageID'' added)"
proof -
  obtain n ms pms fs where t: "t = TStruct n ms pms fs"
    using assms by (cases t) (auto simp: extractBaseEmbeddedFields_def)
  then show "is_TStruct t" by simp
  have r: "extractBaseEmbeddedFields_loop fs [] added = (new, added')"
    using assms t by (simp add: extractBaseEmbeddedFields_def)
  show "\<forall>h \<in> set new. Name h = ''LanguageID''
           \<and> (\<exists>b \<in> set (tfields t). Name b = ''LanguageID'' \<and> Type h = Type b)"
  proof (cases "''LanguageID'' \<in> added")
    case True
    with r show ?thesis by (simp add: extract_loop_added)
  next
    case False
    show ?thesis
    proof (cases "find (\<lambda>b. Name b = ''LanguageID'') fs")
      case None
      with r False show ?thesis by (simp add: extract_loop_find)
    next
      case (Some b)
      then have "b \<in> set fs \<and> Name b = ''LanguageID''"
        by (rule find_Some_holds)
      with r False Some t show ?thesis
        by (auto simp: extract_loop_find)
    qed
  qed
  show "count_LanguageID new = (if ''LanguageID'' \<in> added \<or> \<not> has_LanguageID t then 0 else 1)"
  proof (cases "''LanguageID'' \<in> added")
    case True
    with r show ?thesis by (simp add: extract_loop_added count_LanguageID_def)
  next
    case False
    show ?thesis
    proof (cases "find (\<lambda>b. Name b = ''LanguageID'') fs")
      case None
      with r False t find_None_has[of fs] show ?thesis
        by (simp add: extract_loop_find count_LanguageID_def has_LanguageID_def)
    next
      case (Some b)
      with find_None_has[of fs] have "has_LanguageID t"
        by (simp add: has_LanguageID_def t)
      with r False Some show ?thesis
        by (auto simp: extract_loop_find count_LanguageID_def)
    qed
  qed
  show "added' = (if ''LanguageID'' \<in> added \<or> \<not> has_LanguageID t then added
                   else insert ''LanguageID'' added)"
  proof (cases "''LanguageID'' \<in> added")
    case True
    with r show ?thesis by (simp add: extract_loop_added)
  next
    case False
    show ?thesis
    proof (cases "find (\<lambda>b. Name b = ''LanguageID'') fs")
      case None
      with r False t find_None_has[of fs] show ?thesis
        by (simp add: extract_loop_find has_LanguageID_def)
    next
      case (Some b)
      with find_None_has[of fs] have "has_LanguageID t"
        by (simp add: has_LanguageID_def t)
      with r False Some show ?thesis
        by (auto simp: extract_loop_find)
    qed
  qed
qed

lemma count_LanguageID_append [simp]:
  "count_LanguageID (xs @ ys) = count_LanguageID xs + count_LanguageID ys"
  by (simp add: count_LanguageID_def)

lemma count_LanguageID_Nil [simp]: "count_LanguageID [] = 0"
  by (simp add: count_LanguageID_def)

lemma inner_field_of_Cons: "inner_field_of efs h \<Longrightarrow> inner_field_of (e # efs) h"
  by (auto simp: inner_field_of_def embedded_LanguageID_def)

lemma embedded_field_inner:
  assumes "Anonymous e" and "isBaseField e"
    and "extractBaseEmbeddedFields (Type e) added = Inr (new, added')"
    and "h \<in> set new"
  shows "embedded_LanguageID (e # efs) h"
  using extract_summary(1,2)[OF assms(3)] assms(1,2,4)
  by (auto simp: embedded_LanguageID_def)

lemma generateInnerStruct_loop_run:
  "generateInnerStruct_loop True efs acc added = Inr (acc', added') \<Longrightarrow>
     \<exists>new. acc' = acc @ new \<and> inner_run efs added new added'"
proof (induction efs arbitrary: acc added)
  case Nil
  then show ?case
    by (auto simp: inner_run_def embeds_LanguageID_def)
next
  case (Cons e efs)
  show ?case
  proof (cases "Anonymous e \<and> isBaseField e")
    case True
    then obtain emb added1 where x: "extractBaseEmbeddedFields (Type e) added = Inr (emb, added1)"
      and rest: "generateInnerStruct_loop True efs (acc @ emb) added1 = Inr (acc', added')"
      using Cons.prems by (auto split: sum.splits)
    from Cons.IH[OF rest] obtain new where n: "acc' = (acc @ emb) @ new"
      and run: "inner_run efs added1 new added'"
      by blast
    have c: "count_LanguageID emb = (if ''LanguageID'' \<in> added \<or> \<not> has_LanguageID (Type e) then 0 else 1)"
      and a1: "added1 = (if ''LanguageID'' \<in> added \<or> \<not> has_LanguageID (Type e) then added
                   else insert ''LanguageID'' added)"
      using extract_summary(3,4)[OF x] by simp_all
    have e: "embeds_LanguageID (e # efs) \<longleftrightarrow> has_LanguageID (Type e) \<or> embeds_LanguageID efs"
      using True by (auto simp: embeds_LanguageID_def)
    have "inner_field_of (e # efs) h" if "h \<in> set emb" for h
      using embedded_field_inner[of e added emb added1 h efs] True x that
      by (simp add: inner_field_of_def)
    moreover have "inner_field_of (e # efs) h" if "h \<in> set new" for h
      using run that by (simp add: inner_run_def inner_field_of_Cons)
    ultimately have "\<forall>h \<in> set (emb @ new). inner_field_of (e # efs) h"
      by auto
    moreover have "added \<subseteq> added'"
      using run a1 by (auto simp: inner_run_def split: if_splits)
    moreover have "count_LanguageID (emb @ new) =
         (if ''LanguageID'' \<notin> added \<and> embeds_LanguageID (e # efs) then 1 else 0)"
      using run c a1 e by (auto simp: inner_run_def split: if_splits)
    moreover have "''LanguageID'' \<in> added' \<longleftrightarrow> ''LanguageID'' \<in> added \<or> embeds_LanguageID (e # efs)"
      using run a1 e by (auto simp: inner_run_def split: if_splits)
    ultimately have "inner_run (e # efs) added (emb @ new) added'"
      by (simp add: inner_run_def)
    with n show ?thesis by auto
  next
    case False
    then have e: "embeds_LanguageID (e # efs) \<longleftrightarrow> embeds_LanguageID efs"
      by (auto simp: embeds_LanguageID_def)
    show ?thesis
    proof (cases "Name e \<in> added \<or> HasSuffix (Name e) ''ID''")
      case True
      with False Cons.prems
      have rest: "generateInnerStruct_loop True efs acc added = Inr (acc', added')"
        by (auto split: if_splits)
      from Cons.IH[OF rest] obtain new where n: "acc' = acc @ new"
        and run: "inner_run efs added new added'"
        by blast
      have "inner_run (e # efs) added new added'"
        using run e by (auto simp: inner_run_def inner_field_of_Cons)
      with n show ?thesis by auto
    next
      case nskip: False
      let ?g = "StructField (Name e) (Type e) (paramTag e) False"
      have rest: "generateInnerStruct_loop True efs (acc @ [?g]) (insert (Name e) added)
                    = Inr (acc', added')"
        using False nskip Cons.prems by (auto split: if_splits)
      from Cons.IH[OF rest] obtain new where n: "acc' = (acc @ [?g]) @ new"
        and run: "inner_run efs (insert (Name e) added) new added'"
        by blast
      have ne: "Name e \<noteq> ''LanguageID''"
        using nskip HasSuffix_LanguageID by auto
      have g: "inner_field_of (e # efs) ?g"
        using False nskip by (auto simp: inner_field_of_def)
      have "\<forall>h \<in> set (?g # new). inner_field_of (e # efs) h"
        using run g by (auto simp: inner_run_def inner_field_of_Cons)
      moreover have "added \<subseteq> added'"
        using run by (auto simp: inner_run_def)
      moreover have "count_LanguageID (?g # new) =
           (if ''LanguageID'' \<notin> added \<and> embeds_LanguageID (e # efs) then 1 else 0)"
        using run ne e by (auto simp: inner_run_def count_LanguageID_def)
      moreover have "''LanguageID'' \<in> added' \<longleftrightarrow> ''LanguageID'' \<in> added \<or> embeds_LanguageID (e # efs)"
        using run ne e by (auto simp: inner_run_def)
      ultimately have "inner_run (e # efs) added (?g # new) added'"
        by (simp add: inner_run_def)
      with n show ?thesis by auto
    qed
  qed
qed

lemma StructOf_fields: "StructOf fs = Inr t \<Longrightarrow> t = TStruct '''' [] [] fs"
  by (auto simp: StructOf_def split: option.splits)

lemma generateInnerStruct_run:
  assumes "generateInnerStruct elemType added True = Inr (t, added')"
  shows "is_TStruct elemType" and "t = TStruct '''' [] [] (tfields t)"
    and "inner_run (tfields elemType) added (tfields t) added'"
proof -
  obtain n ms pms efs where et: "elemType = TStruct n ms pms efs"
    using assms by (cases elemType) (auto simp: generateInnerStruct_def)
  then show "is_TStruct elemType" by simp
  obtain inner where l: "generateInnerStruct_loop True efs [] added = Inr (inner, added')"
    and s: "StructOf inner = Inr t"
    using assms et by (auto simp: generateInnerStruct_def split: sum.splits)
  have t: "t = TStruct '''' [] [] inner"
    using s by (rule StructOf_fields)
  then show "t = TStruct '''' [] [] (tfields t)" by simp
  from generateInnerStruct_loop_run[OF l] have "inner_run efs added inner added'"
    by simp
  then show "inner_run (tfields elemType) added (tfields t) added'"
    by (simp add: et t)
qed

lemma generateInnerStruct_shape:
  assumes "generateInnerStruct elemType added True = Inr (t, added')"
  shows "nested_shape_of elemType t"
  using generateInnerStruct_run[OF assms]
  by (simp add: nested_shape_of_def inner_run_def)

lemma create_field_of_Cons: "create_field_of mfs g \<Longrightarrow> create_field_of (f # mfs) g"
  by (auto simp: create_field_of_def embedded_LanguageID_def)

lemma nested_count_append [simp]:
  "nested_LanguageID_count (xs @ ys) = nested_LanguageID_count xs + nested_LanguageID_count ys"
  by (simp add: nested_LanguageID_count_def)

lemma nested_count_Nil [simp]: "nested_LanguageID_count [] = 0"
  by (simp add: nested_LanguageID_count_def)

lemma nested_count_LanguageID_fields:
  "\<forall>h \<in> set emb. Name h = ''LanguageID'' \<Longrightarrow> nested_LanguageID_count emb = 0"
  by (induction emb) (auto simp: nested_LanguageID_count_def)

lemma create_run_Cons:
  assumes "create_run mfs added1 new added'" and "added \<subseteq> added1"
    and "\<forall>g \<in> set pre. create_field_of (f # mfs) g"
    and "nested_LanguageID_count pre \<le> 1"
    and "''LanguageID'' \<in> added \<longrightarrow> nested_LanguageID_count pre = 0"
    and "nested_LanguageID_count pre = 1 \<longrightarrow> ''LanguageID'' \<in> added1"
  shows "create_run (f # mfs) added (pre @ new) added'"
proof -
  have "\<forall>g \<in> set (pre @ new). create_field_of (f # mfs) g"
    using assms(1,3) by (auto simp: create_run_def create_field_of_Cons)
  moreover have "added \<subseteq> added'"
    using assms(1,2) by (auto simp: create_run_def)
  moreover have "nested_LanguageID_count (pre @ new) \<le> 1"
    using assms(1,4,6) by (auto simp: create_run_def)
  moreover have "''LanguageID'' \<in> added \<longrightarrow> nested_LanguageID_count (pre @ new) = 0"
    using assms(1,2,5) by (auto simp: create_run_def)
  moreover have "nested_LanguageID_count (pre @ new) = 1 \<longrightarrow> ''LanguageID'' \<in> added'"
    using assms(1,4,6) by (auto simp: create_run_def)
  ultimately show ?thesis
    by (simp add: create_run_def)
qed

lemma GenerateCreateParameters_loop_run:
  "GenerateCreateParameters_loop mfs acc added = Inr (acc', added') \<Longrightarrow>
     \<exists>new. acc' = acc @ new \<and> create_run mfs added new added'"
proof (induction mfs arbitrary: acc added)
  case Nil
  then show ?case
    by (auto simp: create_run_def)
next
  case (Cons f mfs)
  show ?case
  proof (cases "Anonymous f \<or> isBaseField f")
    case base: True
    show ?thesis
    proof (cases "Anonymous f \<and> isBaseField f")
      case True
      then obtain emb added1 where x: "extractBaseEmbeddedFields (Type f) added = Inr (emb, added1)"
        and rest: "GenerateCreateParameters_loop mfs (acc @ emb) added1 = Inr (acc', added')"
        using Cons.prems by (auto split: sum.splits)
      from Cons.IH[OF rest] obtain new where n: "acc' = (acc @ emb) @ new"
        and run: "create_run mfs added1 new added'"
        by blast
      have names: "\<forall>h \<in> set emb. Name h = ''LanguageID''"
        using extract_summary(2)[OF x] by blast
      have "\<forall>g \<in> set emb. create_field_of (f # mfs) g"
        using embedded_field_inner[of f added emb added1 _ mfs] True x
        by (simp add: create_field_of_def)
      moreover have "added \<subseteq> added1"
        using extract_summary(4)[OF x] by (auto split: if_splits)
      ultimately have "create_run (f # mfs) added (emb @ new) added'"
        using nested_count_LanguageID_fields[OF names] by (intro create_run_Cons[OF run]) simp_all
      with n show ?thesis by auto
    next
      case False
      with base Cons.prems
      have rest: "GenerateCreateParameters_loop mfs acc added = Inr (acc', added')"
        by auto
      from Cons.IH[OF rest] obtain new where n: "acc' = acc @ new"
        and run: "create_run mfs added new added'"
        by blast
      have "create_run (f # mfs) added ([] @ new) added'"
        by (intro create_run_Cons[OF run]) simp_all
      with n show ?thesis by auto
    qed
  next
    case own: False
    show ?thesis
    proof (cases "is_TSlice (Type f)")
      case slice: True
      show ?thesis
      proof (cases "is_TStruct (Elem (Type f))")
        case True
        then obtain t added1 where
          x: "generateInnerStruct (Elem (Type f)) added True = Inr (t, added1)"
          and rest: "GenerateCreateParameters_loop mfs
                       (acc @ [StructField (Name f) (TSlice t) (paramTag f) False]) added1
                     = Inr (acc', added')"
          using own slice Cons.prems by (auto split: sum.splits)
        let ?g = "StructField (Name f) (TSlice t) (paramTag f) False"
        from Cons.IH[OF rest] obtain new where n: "acc' = (acc @ [?g]) @ new"
          and run: "create_run mfs added1 new added'"
          by blast
        have ir: "inner_run (tfields (Elem (Type f))) added (tfields t) added1"
          using generateInnerStruct_run(3)[OF x] .
        have "t = TStruct [] [] [] (tfields t)"
          using generateInnerStruct_run(2)[OF x] .
        then have ts: "is_TStruct t"
          by (cases t) simp_all
        have "create_field_of (f # mfs) ?g"
          using own slice generateInnerStruct_shape[OF x] by (simp add: create_field_of_def)
        then have "\<forall>g \<in> set [?g]. create_field_of (f # mfs) g"
          by simp
        moreover have "added \<subseteq> added1"
          using ir by (simp add: inner_run_def)
        moreover have "nested_LanguageID_count [?g] \<le> 1"
          using ir by (simp add: nested_LanguageID_count_def inner_run_def)
        moreover have "''LanguageID'' \<in> added \<longrightarrow> nested_LanguageID_count [?g] = 0"
          using ir by (simp add: nested_LanguageID_count_def inner_run_def)
        moreover have "nested_LanguageID_count [?g] = 1 \<longrightarrow> ''LanguageID'' \<in> added1"
          using ir ts by (auto simp: nested_LanguageID_count_def inner_run_def split: if_splits)
        ultimately have "create_run (f # mfs) added ([?g] @ new) added'"
          by (intro create_run_Cons[OF run])
        with n show ?thesis by auto
      next
        case False
        with own slice Cons.prems
        have rest: "GenerateCreateParameters_loop mfs acc added = Inr (acc', added')"
          by auto
        from Cons.IH[OF rest] obtain new where n: "acc' = acc @ new"
          and run: "create_run mfs added new added'"
          by blast
        have "create_run (f # mfs) added ([] @ new) added'"
          by (intro create_run_Cons[OF run]) simp_all
        with n show ?thesis by auto
      qed
    next
      case False
      let ?g = "StructField (Name f) (Type f) (paramTag f) False"
      have rest: "GenerateCreateParameters_loop mfs (acc @ [?g]) added = Inr (acc', added')"
        using own False Cons.prems by auto
      from Cons.IH[OF rest] obtain new where n: "acc' = (acc @ [?g]) @ new"
        and run: "create_run mfs added new added'"
        by blast
      have "create_field_of (f # mfs) ?g"
        using own False by (simp add: create_field_of_def)
      then have "\<forall>g \<in> set [?g]. create_field_of (f # mfs) g"
        by simp
      moreover have "nested_LanguageID_count [?g] = 0"
        using False by (simp add: nested_LanguageID_count_def)
      ultimately have "create_run (f # mfs) added ([?g] @ new) added'"
        by (intro create_run_Cons[OF run]) simp_all
      with n show ?thesis by auto
    qed
  qed
qed

lemma GenerateCreateParameters_loop_content:
  "GenerateCreateParameters_loop (pre @ f # post) acc added = Inr (acc', added') \<Longrightarrow>
   ''LanguageID'' \<notin> added \<Longrightarrow> \<forall>p \<in> set pre. \<not> supplies_LanguageID p \<Longrightarrow>
   is_content_slice f \<Longrightarrow>
     \<exists>g \<in> set acc'. Name g = Name f \<and> is_TSlice (Type g)
        \<and> count_LanguageID (tfields (Elem (Type g))) = 1"
proof (induction pre arbitrary: acc added)
  case Nil
  have own: "\<not> Anonymous f" "\<not> isBaseField f" "is_TSlice (Type f)" "is_TStruct (Elem (Type f))"
    and emb: "embeds_LanguageID (tfields (Elem (Type f)))"
    using Nil.prems(4) by (simp_all add: is_content_slice_def)
  obtain t added1 where
    x: "generateInnerStruct (Elem (Type f)) added True = Inr (t, added1)"
    and rest: "GenerateCreateParameters_loop post
                 (acc @ [StructField (Name f) (TSlice t) (paramTag f) False]) added1
               = Inr (acc', added')"
    using own Nil.prems(1) by (auto split: sum.splits)
  let ?g = "StructField (Name f) (TSlice t) (paramTag f) False"
  have "count_LanguageID (tfields t) = 1"
    using generateInnerStruct_run(3)[OF x] emb Nil.prems(2) by (simp add: inner_run_def)
  moreover obtain new where "acc' = (acc @ [?g]) @ new"
    using GenerateCreateParameters_loop_run[OF rest] by blast
  ultimately show ?case
    by auto
next
  case (Cons p pre)
  have np: "\<not> supplies_LanguageID p" and npre: "\<forall>p \<in> set pre. \<not> supplies_LanguageID p"
    using Cons.prems(3) by simp_all
  have "\<exists>acc1 added1. GenerateCreateParameters_loop (pre @ f # post) acc1 added1
            = Inr (acc', added') \<and> ''LanguageID'' \<notin> added1"
  proof (cases "Anonymous p \<or> isBaseField p")
    case base: True
    show ?thesis
    proof (cases "Anonymous p \<and> isBaseField p")
      case True
      then obtain emb added1 where
        x: "extractBaseEmbeddedFields (Type p) added = Inr (emb, added1)"
        and rest: "GenerateCreateParameters_loop (pre @ f # post) (acc @ emb) added1
                     = Inr (acc', added')"
        using Cons.prems(1) by (auto split: sum.splits)
      have "\<not> has_LanguageID (Type p)"
        using np True by (simp add: supplies_LanguageID_def)
      then have "added1 = added"
        using extract_summary(4)[OF x] by simp
      with rest Cons.prems(2) show ?thesis by blast
    next
      case False
      with base Cons.prems(1,2) show ?thesis
        by auto
    qed
  next
    case own: False
    show ?thesis
    proof (cases "is_TSlice (Type p) \<and> is_TStruct (Elem (Type p))")
      case True
      then obtain t added1 where
        x: "generateInnerStruct (Elem (Type p)) added True = Inr (t, added1)"
        and rest: "GenerateCreateParameters_loop (pre @ f # post)
                     (acc @ [StructField (Name p) (TSlice t) (paramTag p) False]) added1
                   = Inr (acc', added')"
        using own Cons.prems(1) by (auto split: sum.splits)
      have "\<not> embeds_LanguageID (tfields (Elem (Type p)))"
        using np own True by (simp add: supplies_LanguageID_def is_content_slice_def)
      then have "''LanguageID'' \<notin> added1"
        using generateInnerStruct_run(3)[OF x] Cons.prems(2) by (simp add: inner_run_def)
      with rest show ?thesis by blast
    next
      case False
      with own Cons.prems(1,2) show ?thesis
        by (cases "is_TSlice (Type p)") auto
    qed
  qed
  then obtain acc1 added1 where
    "GenerateCreateParameters_loop (pre @ f # post) acc1 added1 = Inr (acc', added')"
    and "''LanguageID'' \<notin> added1"
    by blast
  from Cons.IH[OF this npre Cons.prems(4)] show ?case .
qed

lemma GenerateCreateParameters_fields:
  assumes "GenerateCreateParameters model = Inr shape"
  shows "\<exists>added'. GenerateCreateParameters_loop (model_fields model) [] {}
            = Inr (tfields shape, added')"
proof -
  let ?t = "if is_TPtr model then Elem model else model"
  obtain n ms pms fs where t: "?t = TStruct n ms pms fs"
    using assms by (cases ?t) (auto simp: GenerateCreateParameters_def Let_def)
  then obtain fields added' where l: "GenerateCreateParameters_loop fs [] {} = Inr (fields, added')"
    and s: "StructOf fields = Inr shape"
    using assms by (auto simp: GenerateCreateParameters_def Let_def split: sum.splits)
  have "tfields shape = fields"
    using StructOf_fields[OF s] by simp
  with l t show ?thesis
    by (auto simp: model_fields_def)
qed

text \<open>
  Claim C7, as stated, fails: the set \<^verbatim>\<open>addedFields\<close> is shared by every call of
  \<^verbatim>\<open>extractBaseEmbeddedFields\<close> for one model, so \<^verbatim>\<open>LanguageID\<close> is taken once for the
  whole model and not once for each nested content shape. For \<^verbatim>\<open>Shop\<close>, with the two
  content slices \<^verbatim>\<open>Contents\<close> and \<^verbatim>\<open>Summaries\<close>, the nested shape of \<^verbatim>\<open>Summaries\<close> has
  no \<^verbatim>\<open>LanguageID\<close>. For \<^verbatim>\<open>Page\<close>, which embeds \<^verbatim>\<open>orm.ContentModel\<close> itself,
  \<^verbatim>\<open>LanguageID\<close> is a field of the create shape and no nested shape has it.
\<close>

theorem create_shape_excludes_base_fields_counterexample:
  "GenerateCreateParameters Shop =
     Inr (TStruct [] [] []
       [StructField ''Contents''
          (TSlice (TStruct [] [] []
             [StructField ''LanguageID'' TString [(''json'', ''language_id'')] False,
              StructField ''Content'' TString [(''json'', ''content'')] False]))
          [(''json'', ''contents'')] False,
        StructField ''Summaries''
          (TSlice (TStruct [] [] []
             [StructField ''Summary'' TString [(''json'', ''summary'')] False]))
          [(''json'', ''summaries'')] False])
   \<and> GenerateCreateParameters Page =
     Inr (TStruct [] [] []
       [StructField ''LanguageID'' TString [(''json'', ''language_id'')] False,
        StructField ''Title'' TString [(''json'', ''title'')] False,
        StructField ''Contents''
          (TSlice (TStruct [] [] []
             [StructField ''Content'' TString [(''json'', ''content'')] False]))
          [(''json'', ''contents'')] False])"
  by (simp add: GenerateCreateParameters_def Shop_def ShopSummary_def Page_def BlogContent_def
      ContentModel_def isBaseField_def baseTypes_def Model_def HasSuffix_def StructOf_def
      IsExported_def IsUpper_def generateInnerStruct_def extractBaseEmbeddedFields_def
      paramTag_def)

text \<open>
  Claim C7, amended. Every field of the create shape is a field of the model that is
  neither embedded nor a base field, or the \<^verbatim>\<open>LanguageID\<close> of a base embedding of the
  model; every field of a nested shape is a field of the element type that is not a base
  embedding, or the \<^verbatim>\<open>LanguageID\<close> of a base embedding of the element type. So the
  identity and timestamp fields of \<^verbatim>\<open>Model\<close> and \<^verbatim>\<open>ContentModel\<close> stay out. All the
  nested shapes of one model together hold \<^verbatim>\<open>LanguageID\<close> at most once; and the first
  field of the model that supplies one, when it is a slice of content structs, has it
  exactly once in its nested shape.
\<close>

theorem create_shape_excludes_base_fields:
  assumes "GenerateCreateParameters model = Inr shape"
  shows "(\<forall>g \<in> set (tfields shape). create_field_of (model_fields model) g)
       \<and> nested_LanguageID_count (tfields shape) \<le> 1
       \<and> (\<forall>pre f post.
            model_fields model = pre @ f # post
            \<and> (\<forall>p \<in> set pre. \<not> supplies_LanguageID p) \<and> is_content_slice f \<longrightarrow>
            (\<exists>g \<in> set (tfields shape). Name g = Name f \<and> is_TSlice (Type g)
                \<and> count_LanguageID (tfields (Elem (Type g))) = 1))"
proof -
  obtain added' where
    l: "GenerateCreateParameters_loop (model_fields model) [] {} = Inr (tfields shape, added')"
    using GenerateCreateParameters_fields[OF assms] by blast
  from GenerateCreateParameters_loop_run[OF l]
  have run: "create_run (model_fields model) {} (tfields shape) added'"
    by simp
  have c: "\<exists>g \<in> set (tfields shape). Name g = Name f \<and> is_TSlice (Type g)
                \<and> count_LanguageID (tfields (Elem (Type g))) = 1"
    if "model_fields model = pre @ f # post \<and> (\<forall>p \<in> set pre. \<not> supplies_LanguageID p)
          \<and> is_content_slice f" for pre f post
  proof -
    have g: "GenerateCreateParameters_loop (pre @ f # post) [] {} = Inr (tfields shape, added')"
      using l that by simp
    have e: "''LanguageID'' \<notin> ({} :: string set)"
      by simp
    have np: "\<forall>p \<in> set pre. \<not> supplies_LanguageID p" and cs: "is_content_slice f"
      using that by simp_all
    show ?thesis
      by (rule GenerateCreateParameters_loop_content[OF g e np cs])
  qed
  have "\<forall>g \<in> set (tfields shape). create_field_of (model_fields model) g"
    and "nested_LanguageID_count (tfields shape) \<le> 1"
    using run by (simp_all add: create_run_def)
  with c show ?thesis
    by blast
qed

lemma Blog_create_shape: "GenerateCreateParameters Blog = Inr Blog_create_params"
  by (simp add: GenerateCreateParameters_def Blog_def BlogContent_def ContentModel_def
      isBaseField_def baseTypes_def Model_def HasSuffix_def StructOf_def IsExported_def
      IsUpper_def Blog_create_params_def BlogContent_params_def generateInnerStruct_def
      extractBaseEmbeddedFields_def paramTag_def)

theorem create_shape_excludes_base_fields_witness:
  "GenerateCreateParameters Blog = Inr Blog_create_params
   \<and> list_all (create_field_of (model_fields Blog)) (tfields Blog_create_params)
   \<and> map Name (tfields Blog_create_params) = [''Contents'', ''Owner'', ''IsPublished'']
   \<and> nested_LanguageID_count (tfields Blog_create_params) \<le> 1
   \<and> model_fields Blog = [StructField ''Model'' Model [] True] @ tfields Blog ! 1 # drop 2 (tfields Blog)
   \<and> \<not> supplies_LanguageID (StructField ''Model'' Model [] True)
   \<and> is_content_slice (tfields Blog ! 1)
   \<and> (\<exists>g \<in> set (tfields Blog_create_params). Name g = ''Contents'' \<and> is_TSlice (Type g)
         \<and> count_LanguageID (tfields (Elem (Type g))) = 1)"
proof -
  let ?pre = "[StructField ''Model'' Model [] True]"
  let ?f = "tfields Blog ! 1"
  let ?post = "drop 2 (tfields Blog)"
  have m: "model_fields Blog = ?pre @ ?f # ?post"
    by (simp add: model_fields_def Blog_def)
  have n: "\<not> supplies_LanguageID (StructField ''Model'' Model [] True)"
    by (simp add: supplies_LanguageID_def is_content_slice_def has_LanguageID_def Model_def)
  have c: "is_content_slice ?f"
    by (simp add: is_content_slice_def Blog_def BlogContent_def ContentModel_def
        embeds_LanguageID_def has_LanguageID_def isBaseField_def baseTypes_def)
  have nm: "Name ?f = ''Contents''"
    by (simp add: Blog_def)
  have names: "map Name (tfields Blog_create_params) = [''Contents'', ''Owner'', ''IsPublished'']"
    by (simp add: Blog_create_params_def)
  note t = create_shape_excludes_base_fields[OF Blog_create_shape]
  have a: "list_all (create_field_of (model_fields Blog)) (tfields Blog_create_params)"
    using t by (simp add: list_all_iff)
  have b: "nested_LanguageID_count (tfields Blog_create_params) \<le> 1"
    using t by simp
  have "\<forall>p \<in> set ?pre. \<not> supplies_LanguageID p"
    using n by simp
  with t m c have "\<exists>g \<in> set (tfields Blog_create_params). Name g = Name ?f \<and> is_TSlice (Type g)
         \<and> count_LanguageID (tfields (Elem (Type g))) = 1"
    by blast
  then have d: "\<exists>g \<in> set (tfields Blog_create_params). Name g = ''Contents'' \<and> is_TSlice (Type g)
         \<and> count_LanguageID (tfields (Elem (Type g))) = 1"
    by (simp only: nm)
  from Blog_create_shape a names b m n c d show ?thesis
    by (intro conjI)
qed


section \<open>The update shape\<close>

lemma update_field_of_Cons: "update_field_of mfs g \<Longrightarrow> update_field_of (f # mfs) g"
  by (auto simp: update_field_of_def embedded_LanguageID_def)

lemma StructOf_check_distinct:
  "StructOf_check seen fs = None \<Longrightarrow>
     distinct (map Name fs) \<and> set (map Name fs) \<inter> set seen = {}"
proof (induction fs arbitrary: seen)
  case Nil
  then show ?case by simp
next
  case (Cons f fs)
  then have r: "StructOf_check (Name f # seen) fs = None" and n: "Name f \<notin> set seen"
    by (auto split: if_splits)
  from Cons.IH[OF r] n show ?case
    by auto
qed

lemma StructOf_distinct: "StructOf fs = Inr t \<Longrightarrow> distinct (map Name fs)"
  using StructOf_check_distinct[of "[]" fs]
  by (auto simp: StructOf_def split: option.splits)

lemma GenerateUpdateParameters_loop_fields:
  "GenerateUpdateParameters_loop mfs acc added = Inr (acc', added') \<Longrightarrow>
     \<exists>new. acc' = acc @ new \<and> (\<forall>g \<in> set new. update_field_of mfs g)
       \<and> (\<forall>f \<in> set mfs. shape_source f \<longrightarrow> (\<exists>g \<in> set new. optional_field_of f g))"
proof (induction mfs arbitrary: acc added)
  case Nil
  then show ?case by auto
next
  case (Cons f mfs)
  show ?case
  proof (cases "Anonymous f \<or> isBaseField f")
    case base: True
    then have ns: "\<not> shape_source f"
      by (auto simp: shape_source_def)
    show ?thesis
    proof (cases "Anonymous f \<and> isBaseField f")
      case True
      then obtain emb added1 where x: "extractBaseEmbeddedFields (Type f) added = Inr (emb, added1)"
        and rest: "GenerateUpdateParameters_loop mfs (acc @ emb) added1 = Inr (acc', added')"
        using Cons.prems by (auto split: sum.splits)
      from Cons.IH[OF rest] obtain new where n: "acc' = (acc @ emb) @ new"
        and u: "\<forall>g \<in> set new. update_field_of mfs g"
        and c: "\<forall>f \<in> set mfs. shape_source f \<longrightarrow> (\<exists>g \<in> set new. optional_field_of f g)"
        by blast
      have "\<forall>g \<in> set emb. embedded_LanguageID (f # mfs) g"
        using embedded_field_inner[OF _ _ x] True by blast
      then have "\<forall>g \<in> set emb. update_field_of (f # mfs) g"
        by (simp add: update_field_of_def)
      with u have a: "\<forall>g \<in> set (emb @ new). update_field_of (f # mfs) g"
        by (auto simp: update_field_of_Cons)
      have b: "\<forall>f' \<in> set (f # mfs). shape_source f' \<longrightarrow>
                 (\<exists>g \<in> set (emb @ new). optional_field_of f' g)"
        using c ns by auto
      from n a b show ?thesis by auto
    next
      case False
      with base Cons.prems
      have rest: "GenerateUpdateParameters_loop mfs acc added = Inr (acc', added')"
        by auto
      from Cons.IH[OF rest] obtain new where n: "acc' = acc @ new"
        and u: "\<forall>g \<in> set new. update_field_of mfs g"
        and c: "\<forall>f \<in> set mfs. shape_source f \<longrightarrow> (\<exists>g \<in> set new. optional_field_of f g)"
        by blast
      have a: "\<forall>g \<in> set new. update_field_of (f # mfs) g"
        using u by (auto simp: update_field_of_Cons)
      have b: "\<forall>f' \<in> set (f # mfs). shape_source f' \<longrightarrow>
                 (\<exists>g \<in> set new. optional_field_of f' g)"
        using c ns by auto
      from n a b show ?thesis by blast
    qed
  next
    case own: False
    show ?thesis
    proof (cases "is_TSlice (Type f)")
      case slice: True
      show ?thesis
      proof (cases "is_TStruct (Elem (Type f))")
        case True
        then obtain t added1 where
          x: "generateInnerStruct (Elem (Type f)) added True = Inr (t, added1)"
          and rest: "GenerateUpdateParameters_loop mfs
                       (acc @ [StructField (Name f) (TPtr (TSlice t)) (paramTag f) False]) added1
                     = Inr (acc', added')"
          using own slice Cons.prems by (auto split: sum.splits)
        let ?g = "StructField (Name f) (TPtr (TSlice t)) (paramTag f) False"
        from Cons.IH[OF rest] obtain new where n: "acc' = (acc @ [?g]) @ new"
          and u: "\<forall>g \<in> set new. update_field_of mfs g"
          and c: "\<forall>f \<in> set mfs. shape_source f \<longrightarrow> (\<exists>g \<in> set new. optional_field_of f g)"
          by blast
        have o: "optional_field_of f ?g"
          using slice generateInnerStruct_shape[OF x] by (simp add: optional_field_of_def)
        then have "update_field_of (f # mfs) ?g"
          using own by (auto simp: update_field_of_def)
        with u have a: "\<forall>g \<in> set (?g # new). update_field_of (f # mfs) g"
          by (auto simp: update_field_of_Cons)
        have b: "\<forall>f' \<in> set (f # mfs). shape_source f' \<longrightarrow>
                   (\<exists>g \<in> set (?g # new). optional_field_of f' g)"
          using c o by auto
        from n a b show ?thesis by auto
      next
        case False
        then have ns: "\<not> shape_source f"
          using slice by (simp add: shape_source_def)
        from False own slice Cons.prems
        have rest: "GenerateUpdateParameters_loop mfs acc added = Inr (acc', added')"
          by auto
        from Cons.IH[OF rest] obtain new where n: "acc' = acc @ new"
          and u: "\<forall>g \<in> set new. update_field_of mfs g"
          and c: "\<forall>f \<in> set mfs. shape_source f \<longrightarrow> (\<exists>g \<in> set new. optional_field_of f g)"
          by blast
        have a: "\<forall>g \<in> set new. update_field_of (f # mfs) g"
          using u by (auto simp: update_field_of_Cons)
        have b: "\<forall>f' \<in> set (f # mfs). shape_source f' \<longrightarrow>
                   (\<exists>g \<in> set new. optional_field_of f' g)"
          using c ns by auto
        from n a b show ?thesis by blast
      qed
    next
      case False
      let ?g = "StructField (Name f) (TPtr (Type f)) (paramTag f) False"
      have rest: "GenerateUpdateParameters_loop mfs (acc @ [?g]) added = Inr (acc', added')"
        using own False Cons.prems by auto
      from Cons.IH[OF rest] obtain new where n: "acc' = (acc @ [?g]) @ new"
        and u: "\<forall>g \<in> set new. update_field_of mfs g"
        and c: "\<forall>f \<in> set mfs. shape_source f \<longrightarrow> (\<exists>g \<in> set new. optional_field_of f g)"
        by blast
      have o: "optional_field_of f ?g"
        using False by (simp add: optional_field_of_def)
      then have "update_field_of (f # mfs) ?g"
        using own by (auto simp: update_field_of_def)
      with u have a: "\<forall>g \<in> set (?g # new). update_field_of (f # mfs) g"
        by (auto simp: update_field_of_Cons)
      have b: "\<forall>f' \<in> set (f # mfs). shape_source f' \<longrightarrow>
                 (\<exists>g \<in> set (?g # new). optional_field_of f' g)"
        using c o by auto
      from n a b show ?thesis by auto
    qed
  qed
qed

lemma Blog_update_shape: "GenerateUpdateParameters Blog = Inr Blog_update_params"
  by (simp add: GenerateUpdateParameters_def Blog_def BlogContent_def ContentModel_def
      isBaseField_def baseTypes_def Model_def HasSuffix_def StructOf_def IsExported_def
      IsUpper_def Blog_update_params_def BlogContent_params_def generateInnerStruct_def
      extractBaseEmbeddedFields_def paramTag_def)

text \<open>
  Claim C6, as stated, fails on the \<^verbatim>\<open>Blog\<close> of the example program: the fields
  \<^verbatim>\<open>LanguageID\<close> and \<^verbatim>\<open>Content\<close> of the nested shape of its contents are strings, not
  pointers.
\<close>

theorem update_shape_optional_counterexample:
  "GenerateUpdateParameters Blog =
     Inr (TStruct [] [] []
       [StructField ''Contents''
          (TPtr (TSlice (TStruct [] [] []
             [StructField ''LanguageID'' TString [(''json'', ''language_id'')] False,
              StructField ''Content'' TString [(''json'', ''content'')] False])))
          [(''json'', ''contents'')] False,
        StructField ''Owner'' (TPtr TString) [(''json'', ''owner'')] False,
        StructField ''IsPublished'' (TPtr TBool) [(''json'', ''is_published'')] False])"
  using Blog_update_shape by (simp add: Blog_update_params_def BlogContent_params_def)

text \<open>
  Claim C6, amended. When the update shape of a model is generated, its field names are
  distinct. Every field of the model that is neither embedded nor a base field, the
  slices of other elements than structs apart, has a field of its name in the shape,
  which is a pointer: to the type of the model's field, or, for a slice of structs, to a
  slice of the nested shape. Every field of the shape is such a field, or is named
  \<^verbatim>\<open>LanguageID\<close> and has the type of the field \<^verbatim>\<open>LanguageID\<close> of a base embedding of the
  model; that one is not made a pointer. The fields of a nested shape have the types
  they have in the element type and in its base embedding.
\<close>

theorem update_shape_optional:
  assumes "GenerateUpdateParameters model = Inr shape"
  shows "(\<forall>g \<in> set (tfields shape). update_field_of (model_fields model) g)
       \<and> (\<forall>f \<in> set (model_fields model). shape_source f \<longrightarrow>
            (\<exists>g \<in> set (tfields shape). optional_field_of f g))
       \<and> distinct (map Name (tfields shape))"
proof -
  let ?t = "if is_TPtr model then Elem model else model"
  obtain n ms pms fs where t: "?t = TStruct n ms pms fs"
    using assms by (cases ?t) (auto simp: GenerateUpdateParameters_def Let_def)
  then obtain fields added' where l: "GenerateUpdateParameters_loop fs [] {} = Inr (fields, added')"
    and s: "StructOf fields = Inr shape"
    using assms by (auto simp: GenerateUpdateParameters_def Let_def split: sum.splits)
  have f: "tfields shape = fields"
    using StructOf_fields[OF s] by simp
  have m: "model_fields model = fs"
    using t by (simp add: model_fields_def)
  have d: "distinct (map Name fields)"
    using s by (rule StructOf_distinct)
  from GenerateUpdateParameters_loop_fields[OF l]
  have "(\<forall>g \<in> set fields. update_field_of fs g)
       \<and> (\<forall>f \<in> set fs. shape_source f \<longrightarrow> (\<exists>g \<in> set fields. optional_field_of f g))"
    by simp
  with d show ?thesis
    by (simp only: f m) simp
qed

theorem update_shape_optional_witness:
  "GenerateUpdateParameters Blog = Inr Blog_update_params
   \<and> list_all (update_field_of (model_fields Blog)) (tfields Blog_update_params)
   \<and> list_all shape_source (tl (model_fields Blog))
   \<and> list_all (\<lambda>f. list_ex (optional_field_of f) (tfields Blog_update_params))
        (tl (model_fields Blog))
   \<and> distinct (map Name (tfields Blog_update_params))
   \<and> map Name (tl (model_fields Blog)) = [''Contents'', ''Owner'', ''IsPublished'']
   \<and> map Name (tfields Blog_update_params) = [''Contents'', ''Owner'', ''IsPublished'']
   \<and> map Type (tfields Blog_update_params)
       = [TPtr (TSlice BlogContent_params), TPtr TString, TPtr TBool]
   \<and> map Type (tfields BlogContent_params) = [TString, TString]"
proof -
  note t = update_shape_optional[OF Blog_update_shape]
  have a: "list_all (update_field_of (model_fields Blog)) (tfields Blog_update_params)"
    using t by (simp add: list_all_iff)
  have s: "list_all shape_source (tl (model_fields Blog))"
    by (simp add: model_fields_def Blog_def shape_source_def isBaseField_def baseTypes_def
        BlogContent_def)
  have sub: "set (tl (model_fields Blog)) \<subseteq> set (model_fields Blog)"
    by (simp add: model_fields_def Blog_def)
  have c: "list_all (\<lambda>f. list_ex (optional_field_of f) (tfields Blog_update_params))
             (tl (model_fields Blog))"
    unfolding list_all_iff list_ex_iff
  proof
    fix f assume i: "f \<in> set (tl (model_fields Blog))"
    then have "shape_source f"
      using s by (simp add: list_all_iff)
    moreover have "f \<in> set (model_fields Blog)"
      using i sub by blast
    ultimately show "\<exists>g \<in> set (tfields Blog_update_params). optional_field_of f g"
      using t by simp
  qed
  have d: "distinct (map Name (tfields Blog_update_params))"
    using t by simp
  have n1: "map Name (tl (model_fields Blog)) = [''Contents'', ''Owner'', ''IsPublished'']"
    by (simp add: model_fields_def Blog_def)
  have n2: "map Name (tfields Blog_update_params) = [''Contents'', ''Owner'', ''IsPublished'']"
    by (simp add: Blog_update_params_def)
  have b: "map Type (tfields Blog_update_params)
       = [TPtr (TSlice BlogContent_params), TPtr TString, TPtr TBool]"
    by (simp add: Blog_update_params_def)
  have e: "map Type (tfields BlogContent_params) = [TString, TString]"
    by (simp add: BlogContent_params_def)
  from Blog_update_shape a s c d n1 n2 b e show ?thesis
    by (intro conjI)
qed

section \<open>The filter shape\<close>

text \<open>
  Claim C3 is not what \<^verbatim>\<open>GenerateFilterParameters\<close> does. The loop over the fields of a
  content element type first skips every name that ends in \<^verbatim>\<open>ID\<close>, \<^verbatim>\<open>LanguageID\<close>
  with them, so the branch that is to keep \<^verbatim>\<open>LanguageID\<close> is never reached; and the
  loop does not enter the embedded \<^verbatim>\<open>ContentModel\<close>, which holds the field. The filter
  shape of \<^verbatim>\<open>Blog\<close> has the three fields below and no \<^verbatim>\<open>LanguageID\<close>.
\<close>

theorem filter_shape_has_no_LanguageID:
  "GenerateFilterParameters Blog =
     Inr (TStruct [] [] []
       [StructField ''Content'' (TPtr TString) [(''url'', ''content'')] False,
        StructField ''Owner'' (TPtr TString) [(''url'', ''owner'')] False,
        StructField ''IsPublished'' (TPtr TBool) [(''url'', ''is_published'')] False])"
proof -
  have "toSnakeCase ''Content'' = ''content''" "toSnakeCase ''Owner'' = ''owner''"
    "toSnakeCase ''IsPublished'' = ''is_published''"
    by code_simp+
  then show ?thesis
    by (simp add: GenerateFilterParameters_def Blog_def BlogContent_def ContentModel_def
        isBaseField_def baseTypes_def Model_def IsContentModel_def HasSuffix_def StructOf_def
        IsExported_def IsUpper_def urlTag_def)
qed

section \<open>The repository\<close>

text \<open>
  Claim C8 is not what \<^verbatim>\<open>GetByID\<close> and \<^verbatim>\<open>GetAll\<close> do. They begin a transaction and
  return without a commit and without a rollback, when the read succeeds and when it
  fails, for every model type and every behaviour of the database. \<^verbatim>\<open>Create\<close>, on the
  same database, ends with the commit.
\<close>

theorem reads_never_end_the_transaction:
  "tx_Commit \<notin> set (calls_of (GetByID T db)) \<and> tx_Rollback \<notin> set (calls_of (GetByID T db))
   \<and> tx_Commit \<notin> set (calls_of (GetAll T scopes db))
   \<and> tx_Rollback \<notin> set (calls_of (GetAll T scopes db))
   \<and> GetByID Blog db_ok = Inr ([tx_Begin, tx_Preload ''Contents'', tx_First], None)
   \<and> GetByID Blog (db_ok\<lparr>First_error := Some ''record not found''\<rparr>)
       = Inr ([tx_Begin, tx_Preload ''Contents'', tx_First], Some ''record not found'')
   \<and> GetAll Blog 0 db_ok = Inr ([tx_Begin, tx_Preload ''Contents'', tx_Scopes 0, tx_Find], None)
   \<and> Create db_ok = ([tx_Begin, tx_Create, tx_Commit], None)"
proof -
  have h: "hasContents Blog = Inr True" "hasContents (TSlice Blog) = Inr True"
    by (simp_all add: hasContents_def Blog_def BlogContent_def IsContentModel_def)
  have "tx_Commit \<notin> set (calls_of (GetByID T db)) \<and> tx_Rollback \<notin> set (calls_of (GetByID T db))"
    by (simp add: GetByID_def calls_of_def Let_def split: option.splits sum.splits)
  moreover have "tx_Commit \<notin> set (calls_of (GetAll T scopes db))
      \<and> tx_Rollback \<notin> set (calls_of (GetAll T scopes db))"
    by (simp add: GetAll_def calls_of_def Let_def split: option.splits sum.splits)
  moreover have "GetByID Blog db_ok = Inr ([tx_Begin, tx_Preload ''Contents'', tx_First], None)"
    by (simp add: GetByID_def h db_ok_def)
  moreover have "GetByID Blog (db_ok\<lparr>First_error := Some ''record not found''\<rparr>)
       = Inr ([tx_Begin, tx_Preload ''Contents'', tx_First], Some ''record not found'')"
    by (simp add: GetByID_def h db_ok_def)
  moreover have "GetAll Blog 0 db_ok
       = Inr ([tx_Begin, tx_Preload ''Contents'', tx_Scopes 0, tx_Find], None)"
    by (simp add: GetAll_def h db_ok_def)
  moreover have "Create db_ok = ([tx_Begin, tx_Create, tx_Commit], None)"
    by (simp add: Create_def db_ok_def)
  ultimately show ?thesis
    by (intro conjI) simp_all
qed


end
